theory Spec2Isabelle
  imports Complex_Main
begin

section \<open>Python values used by the interpolation layer\<close>

text \<open>
  The module \<^verbatim>\<open>lit/networks/interpolation_layer.py\<close> mixes Python integers (tensor
  and target sizes) with Python floats (scale factors). Integers are modelled as
  \<^typ>\<open>int\<close> (sizes of a tensor axis, which are never negative, as \<^typ>\<open>nat\<close>) and floats
  as \<^typ>\<open>real\<close>. The per-axis computation is given twice: with exact arithmetic
  (\<open>crop_pad_axis\<close>), and with every float operation rounded as IEEE doubles round
  (\<open>crop_pad_axis_fl\<close>), for the one property that depends on the rounding. Every
  exception the code can raise is a value of \<open>error\<close>, returned as \<open>Inl\<close>.
\<close>

datatype error =
    RuntimeError
  | ValueError
  | AttributeError
  | NotImplementedError
  | ZeroDivisionError
  | IndexError

text \<open>Python's \<^verbatim>\<open>int(x)\<close> on a float truncates towards zero.\<close>

definition py_int :: "real \<Rightarrow> int" where
  "py_int x = (if 0 \<le> x then \<lfloor>x\<rfloor> else \<lceil>x\<rceil>)"

section \<open>The per-axis crop and pad computation\<close>

text \<open>
  Lines 283 to 286 of \<^verbatim>\<open>_ZoomNd._calculate_crop_pad\<close>: the extent \<open>out\<close> taken from
  the input along one axis.
\<close>

definition calc_out :: "nat \<Rightarrow> real \<Rightarrow> string \<Rightarrow> int" where
  "calc_out this_in_shape source_size alignment =
     (if alignment = ''mid'' \<and> (int this_in_shape - py_int source_size) mod 2 \<noteq> 0
      then py_int (source_size / 2) * 2
      else py_int source_size)"

text \<open>
  Lines 276 to 321 for one axis: \<open>this_in_shape\<close> is \<^verbatim>\<open>in_shape[dim + 2]\<close>, \<open>sf\<close> is
  \<^verbatim>\<open>scale_factor[dim]\<close> and \<open>tgt\<close> is \<^verbatim>\<open>target_shape[dim]\<close>. The result is the slice
  \<open>(start, end)\<close>, the new scale factor of the axis, the padding pair and the size
  handed to the interpolation. The three float divisions raise on a zero divisor.
\<close>

definition crop_pad_axis ::
  "nat \<Rightarrow> real \<Rightarrow> int \<Rightarrow> string \<Rightarrow> error + ((int \<times> int) \<times> real \<times> (int \<times> int) \<times> int)" where
  "crop_pad_axis this_in_shape sf tgt alignment =
     (let source_size = real_of_int tgt * sf;
          start = 0;
          end' = int this_in_shape;
          out = calc_out this_in_shape source_size alignment
      in if tgt = 0 then Inl ZeroDivisionError
         else
           let rescale_factor = real_of_int out / real_of_int tgt
           in if out > int this_in_shape then
                (let padding = (if alignment = ''from_end'' then (1, 0)
                                else if alignment = ''mid'' then (1 / 2, 1 / 2)
                                else (0, 1))
                 in if sf = 0 then Inl ZeroDivisionError
                    else
                      let interp_target_shape = py_int (real this_in_shape / sf)
                      in if alignment = ''mid'' \<and> (interp_target_shape - tgt) mod 2 \<noteq> 0
                         then Inl NotImplementedError
                         else if interp_target_shape = 0 then Inl ZeroDivisionError
                         else
                           let rescale_factor = real this_in_shape / real_of_int interp_target_shape;
                               full_pad = tgt - interp_target_shape;
                               padding = (py_int (fst padding * real_of_int full_pad),
                                          py_int (snd padding * real_of_int full_pad))
                           in Inr ((start, end'), rescale_factor, padding, interp_target_shape))
              else
                (let start = (if alignment = ''mid''
                              then py_int (real_of_int (end' - out) / 2) else start);
                     (start, end') = (if alignment = ''from_end'' then (end' - out, end')
                                      else (start, start + out))
                 in Inr ((start, end'), rescale_factor, (0, 0), tgt)))"

text \<open>
  \<^verbatim>\<open>_ZoomNd._calculate_crop_pad\<close> itself (lines 275 to 325): it reads the axis
  \<open>dim'\<close> (the source's \<^verbatim>\<open>dim\<close>) out of the three sequences, runs the computation above and stores the new
  scale factor back into \<^verbatim>\<open>scale_factor[dim]\<close>. Reading past the end of a Python
  sequence raises.
\<close>

definition calculate_crop_pad ::
  "nat list \<Rightarrow> real list \<Rightarrow> int list \<Rightarrow> nat \<Rightarrow> string
     \<Rightarrow> error + ((int \<times> int) \<times> real list \<times> (int \<times> int) \<times> int)" where
  "calculate_crop_pad in_shape scale_factor target_shape dim' alignment =
     (if length in_shape \<le> dim' + 2 \<or> length target_shape \<le> dim' \<or> length scale_factor \<le> dim'
      then Inl IndexError
      else
        case crop_pad_axis (in_shape ! (dim' + 2)) (scale_factor ! dim') (target_shape ! dim') alignment of
          Inl err \<Rightarrow> Inl err
        | Inr (crop_slice, rescale_factor, padding, interp_target_shape) \<Rightarrow>
            Inr (crop_slice, scale_factor[dim' := rescale_factor], padding, interp_target_shape))"

section \<open>Checking and grouping the scale factors\<close>

text \<open>
  \<^verbatim>\<open>scale_factors\<close> is dynamically typed in the source: a number, or an iterable whose
  entries are numbers or sequences of numbers. Anything else is \<open>Unsupported\<close> (at the
  top) or \<open>NotIterable\<close> (as an entry). Entries that are numpy arrays or torch tensors
  belong to the tensor library and are not modelled.
\<close>

datatype sf_entry = Number real | Sequence "real list" | NotIterable

datatype scale_factors = Scalar real | Iterable "sf_entry list" | Unsupported

text \<open>
  Lines 197 to 221: one entry of the iterable becomes a list of \<open>N\<close> factors. A sequence
  of length one is repeated \<open>N\<close> times, and then still fails the length test of line 217
  unless \<open>N = 1\<close>.
\<close>

definition fix_entry :: "int \<Rightarrow> sf_entry \<Rightarrow> error + real list" where
  "fix_entry N sf =
     (case sf of
        Number x \<Rightarrow> Inr (replicate (nat N) x)
      | Sequence xs \<Rightarrow>
          (let sf_dim = int (length xs);
               sf' = (if sf_dim = 1 then concat (replicate (nat N) xs) else xs)
           in if sf_dim \<noteq> N then Inl ValueError else Inr sf')
      | NotIterable \<Rightarrow> Inl ValueError)"

text \<open>
  The loop of lines 196 to 230, with its two variables \<open>num\<close> and \<open>last_sf\<close>. The
  source is a generator that \<^verbatim>\<open>forward\<close> consumes completely with \<^verbatim>\<open>list\<close>, so the
  model returns all the pairs it yields, or the first exception.
\<close>

fun fix_loop :: "int \<Rightarrow> nat \<Rightarrow> real list option \<Rightarrow> sf_entry list \<Rightarrow> error + (real list \<times> nat) list" where
  "fix_loop N num last_sf [] =
     Inr (case last_sf of None \<Rightarrow> [] | Some l \<Rightarrow> [(l, num)])"
| "fix_loop N num last_sf (e # es) =
     (case fix_entry N e of
        Inl err \<Rightarrow> Inl err
      | Inr sf \<Rightarrow>
          (case last_sf of
             None \<Rightarrow> fix_loop N (num + 1) (Some sf) es
           | Some l \<Rightarrow>
               if list_ex (\<lambda>(l, t). l \<noteq> t) (zip l sf)
               then (case fix_loop N 1 (Some sf) es of
                       Inl err \<Rightarrow> Inl err
                     | Inr ys \<Rightarrow> Inr ((l, num) # ys))
               else fix_loop N (num + 1) (Some sf) es))"

definition fix_scale_factors :: "int \<Rightarrow> scale_factors \<Rightarrow> nat \<Rightarrow> error + (real list \<times> nat) list" where
  "fix_scale_factors N sfs batch_size =
     (case sfs of
        Iterable es \<Rightarrow> fix_loop N 0 None es
      | Scalar x \<Rightarrow> Inr [(replicate (nat N) x, batch_size)]
      | Unsupported \<Rightarrow> Inl ValueError)"

section \<open>The forward pass over the batch\<close>

text \<open>
  A tensor is seen through what \<^verbatim>\<open>forward\<close> reads of it: its number of dimensions and
  its samples along dimension 0. \<^verbatim>\<open>torch.split\<close> with a list of sizes cuts the batch
  into consecutive chunks and raises unless the sizes add up to the batch size;
  \<^verbatim>\<open>torch.cat\<close> along dimension 0 is \<^const>\<open>concat\<close>.
\<close>

record 's tensor =
  ndim :: nat
  samples :: "'s list"

fun split_sizes :: "'a list \<Rightarrow> nat list \<Rightarrow> 'a list list" where
  "split_sizes xs [] = []"
| "split_sizes xs (n # ns) = take n xs # split_sizes (drop n xs) ns"

definition torch_split :: "'a list \<Rightarrow> nat list \<Rightarrow> error + 'a list list" where
  "torch_split xs sizes =
     (if sum_list sizes \<noteq> length xs then Inl RuntimeError else Inr (split_sizes xs sizes))"

text \<open>Lines 144 to 146: \<^verbatim>\<open>[1 / sf for sf in scale_f]\<close>.\<close>

definition rescale_list :: "real list \<Rightarrow> error + real list" where
  "rescale_list scale_f =
     (if list_ex (\<lambda>sf. sf = 0) scale_f then Inl ZeroDivisionError
      else Inr (map (\<lambda>sf. 1 / sf) scale_f))"

text \<open>
  The loop of lines 141 to 151. The abstract method \<^verbatim>\<open>_interpolate\<close> is the parameter
  \<open>interpolate\<close>: it takes a chunk, its scale factors and the target shape, and returns
  the zoomed chunk with the scale factors really used, or raises.
\<close>

fun forward_loop ::
  "('s list \<Rightarrow> real list \<Rightarrow> int list \<Rightarrow> error + ('t list \<times> real list)) \<Rightarrow> bool \<Rightarrow> int list
     \<Rightarrow> ('s list \<times> real list \<times> nat) list \<Rightarrow> error + ('t list list \<times> real list list)" where
  "forward_loop interpolate rescale target_shape [] = Inr ([], [])"
| "forward_loop interpolate rescale target_shape ((tensor, scale_f, num) # rest) =
     (case (if rescale then rescale_list scale_f else Inr scale_f) of
        Inl err \<Rightarrow> Inl err
      | Inr scale_f' \<Rightarrow>
          (case interpolate tensor scale_f' target_shape of
             Inl err \<Rightarrow> Inl err
           | Inr (image', sf) \<Rightarrow>
               (case forward_loop interpolate rescale target_shape rest of
                  Inl err \<Rightarrow> Inl err
                | Inr (interp, scales_out) \<Rightarrow> Inr (image' # interp, replicate num sf @ scales_out))))"

text \<open>\<^verbatim>\<open>_ZoomNd.forward\<close>, lines 114 to 153.\<close>

definition forward ::
  "int \<Rightarrow> ('s list \<Rightarrow> real list \<Rightarrow> int list \<Rightarrow> error + ('t list \<times> real list)) \<Rightarrow> 's tensor
     \<Rightarrow> scale_factors \<Rightarrow> int list \<Rightarrow> bool \<Rightarrow> error + ('t list \<times> real list list)" where
  "forward N interpolate input_tensor sfs target_shape rescale =
     (if N = - 1 then Inl RuntimeError
      else if int (ndim input_tensor) \<noteq> 2 + N then Inl ValueError
      else if length target_shape = 0 then Inl AttributeError
      else if ndim input_tensor = 0 then Inl IndexError
      else
        case fix_scale_factors N sfs (length (samples input_tensor)) of
          Inl err \<Rightarrow> Inl err
        | Inr scales_chunks \<Rightarrow>
            if length scales_chunks = 0 then Inl ValueError
            else
              let scales = map fst scales_chunks;
                  chunks = map snd scales_chunks
              in case torch_split (samples input_tensor) chunks of
                   Inl err \<Rightarrow> Inl err
                 | Inr tensors \<Rightarrow>
                     (case forward_loop interpolate rescale target_shape
                             (zip tensors (zip scales chunks)) of
                        Inl err \<Rightarrow> Inl err
                      | Inr (interp, scales_out) \<Rightarrow> Inr (concat interp, scales_out)))"

section \<open>Notions used to state the properties of the batch handling\<close>

text \<open>
  Line 151 gives every sample of a run the scale factors of the run:
  \<^verbatim>\<open>scales_out.extend([sf] * num)\<close>. Applied to the pairs of \<^const>\<open>fix_scale_factors\<close>
  it gives back one entry per sample.
\<close>

definition expand_runs :: "('a \<times> nat) list \<Rightarrow> 'a list" where
  "expand_runs runs = concat (map (\<lambda>(sf, num). replicate num sf) runs)"

text \<open>
  The docstring of \<^verbatim>\<open>forward\<close> (lines 96 to 97) asks that the first dimension of a
  sequence of scale factors be the batch size. \<^verbatim>\<open>_fix_scale_factors\<close> does not test it
  (the test is commented out, lines 189 to 192).
\<close>

definition per_sample_length_ok :: "scale_factors \<Rightarrow> nat \<Rightarrow> bool" where
  "per_sample_length_ok sfs batch_size =
     (case sfs of Iterable es \<Rightarrow> length es = batch_size | _ \<Rightarrow> True)"

text \<open>
  The invariant of the loop in \<^verbatim>\<open>_fix_scale_factors\<close>: \<open>last_sf\<close>, once set, has \<open>N\<close>
  entries, and \<open>num\<close> is 0 until then.
\<close>

definition loop_inv :: "int \<Rightarrow> nat \<Rightarrow> real list option \<Rightarrow> bool" where
  "loop_inv N num last_sf = (case last_sf of None \<Rightarrow> num = 0 | Some l \<Rightarrow> length l = nat N)"

text \<open>
  The caller's side of the \<^verbatim>\<open>rescale\<close> flag: the scale factors with every number
  replaced by its reciprocal, \<^verbatim>\<open>[1 / x for x in v]\<close>, and the test that no number in
  them is zero.
\<close>

fun recip_entry :: "sf_entry \<Rightarrow> sf_entry" where
  "recip_entry (Number x) = Number (1 / x)"
| "recip_entry (Sequence xs) = Sequence (map (\<lambda>x. 1 / x) xs)"
| "recip_entry NotIterable = NotIterable"

fun recip_scale_factors :: "scale_factors \<Rightarrow> scale_factors" where
  "recip_scale_factors (Scalar x) = Scalar (1 / x)"
| "recip_scale_factors (Iterable es) = Iterable (map recip_entry es)"
| "recip_scale_factors Unsupported = Unsupported"

fun nonzero_entry :: "sf_entry \<Rightarrow> bool" where
  "nonzero_entry (Number x) = (x \<noteq> 0)"
| "nonzero_entry (Sequence xs) = list_all (\<lambda>x. x \<noteq> 0) xs"
| "nonzero_entry NotIterable = True"

fun nonzero_scale_factors :: "scale_factors \<Rightarrow> bool" where
  "nonzero_scale_factors (Scalar x) = (x \<noteq> 0)"
| "nonzero_scale_factors (Iterable es) = list_all nonzero_entry es"
| "nonzero_scale_factors Unsupported = True"

abbreviation recip_list :: "real list \<Rightarrow> real list" where
  "recip_list \<equiv> map (\<lambda>sf. 1 / sf)"

text \<open>
  The shape of \<^verbatim>\<open>Zoom2d._interpolate\<close> and \<^verbatim>\<open>Zoom3d._interpolate\<close>: crop, interpolation
  size and padding are planned from the scale factors and the target shape (and the
  spatial shape of the tensor, the same for every chunk), and then applied to every
  sample of the chunk alike. \<open>zoomed_as\<close> relates a sample and its scale factors to
  its zoomed sample and corrected scale factors.
\<close>

definition per_sample_interpolate ::
  "(real list \<Rightarrow> int list \<Rightarrow> error + ('p \<times> real list)) \<Rightarrow> ('p \<Rightarrow> 's \<Rightarrow> 't)
     \<Rightarrow> 's list \<Rightarrow> real list \<Rightarrow> int list \<Rightarrow> error + ('t list \<times> real list)" where
  "per_sample_interpolate plan zoom chunk sf target_shape =
     (case plan sf target_shape of
        Inl err \<Rightarrow> Inl err
      | Inr (p, sf') \<Rightarrow> Inr (map (zoom p) chunk, sf'))"

definition zoomed_as ::
  "(real list \<Rightarrow> int list \<Rightarrow> error + ('p \<times> real list)) \<Rightarrow> ('p \<Rightarrow> 's \<Rightarrow> 't) \<Rightarrow> bool \<Rightarrow> int list
     \<Rightarrow> 's \<times> real list \<Rightarrow> 't \<times> real list \<Rightarrow> bool" where
  "zoomed_as plan zoom rescale target_shape = (\<lambda>(x, sf) (y, sf').
     \<exists>p. plan (if rescale then recip_list sf else sf) target_shape = Inr (p, sf') \<and> y = zoom p x)"

section \<open>The per-axis computation in double arithmetic\<close>

text \<open>
  Python floats are IEEE doubles: every operation returns the double nearest to the
  exact result, the even one of two equally near. \<open>fl64\<close> is this rounding to 53
  significant bits, without the bounds on the exponent (no overflow, no subnormal
  numbers). It is evaluated on concrete numbers through the lemma \<open>fl64_eval\<close>.
  \<open>round_even\<close> is the nearest integer with ties to even, which is also Python's
  \<^verbatim>\<open>round\<close>.
\<close>

definition round_even :: "real \<Rightarrow> int" where
  "round_even y =
     (let k = \<lfloor>y\<rfloor>; d = y - of_int k
      in if d < 1 / 2 then k else if 1 / 2 < d then k + 1 else if even k then k else k + 1)"

definition fl64 :: "real \<Rightarrow> real" where
  "fl64 x =
     (if x = 0 then 0
      else let e = \<lfloor>log 2 \<bar>x\<bar>\<rfloor> - 52
           in of_int (round_even (x / 2 powi e)) * 2 powi e)"

text \<open>The only property of the rounding that the proofs use: a relative error of \<open>2\<^sup>-\<^sup>5\<^sup>3\<close>.\<close>

definition rounds_like_double :: "(real \<Rightarrow> real) \<Rightarrow> bool" where
  "rounds_like_double fl = (\<forall>x. \<bar>fl x - x\<bar> \<le> 2 powi (- 53) * \<bar>x\<bar>)"

text \<open>
  Lines 276 to 321 once more, with every float operation rounded by \<open>fl\<close>: an integer
  meeting a float is converted first (\<open>fl (real_of_int tgt)\<close>), and the quotient of two
  integers is rounded once. With the identity for \<open>fl\<close> this is \<^const>\<open>crop_pad_axis\<close>,
  with \<^const>\<open>fl64\<close> it is the computation on doubles.
\<close>

definition calc_out_fl :: "(real \<Rightarrow> real) \<Rightarrow> nat \<Rightarrow> real \<Rightarrow> string \<Rightarrow> int" where
  "calc_out_fl fl this_in_shape source_size alignment =
     (if alignment = ''mid'' \<and> (int this_in_shape - py_int source_size) mod 2 \<noteq> 0
      then py_int (fl (source_size / 2)) * 2
      else py_int source_size)"

definition crop_pad_axis_fl ::
  "(real \<Rightarrow> real) \<Rightarrow> nat \<Rightarrow> real \<Rightarrow> int \<Rightarrow> string
     \<Rightarrow> error + ((int \<times> int) \<times> real \<times> (int \<times> int) \<times> int)" where
  "crop_pad_axis_fl fl this_in_shape sf tgt alignment =
     (let source_size = fl (fl (real_of_int tgt) * sf);
          start = 0;
          end' = int this_in_shape;
          out = calc_out_fl fl this_in_shape source_size alignment
      in if tgt = 0 then Inl ZeroDivisionError
         else
           let rescale_factor = fl (real_of_int out / real_of_int tgt)
           in if out > int this_in_shape then
                (let padding = (if alignment = ''from_end'' then (1, 0)
                                else if alignment = ''mid'' then (1 / 2, 1 / 2)
                                else (0, 1))
                 in if sf = 0 then Inl ZeroDivisionError
                    else
                      let interp_target_shape = py_int (fl (fl (real this_in_shape) / sf))
                      in if alignment = ''mid'' \<and> (interp_target_shape - tgt) mod 2 \<noteq> 0
                         then Inl NotImplementedError
                         else if interp_target_shape = 0 then Inl ZeroDivisionError
                         else
                           let rescale_factor = fl (real this_in_shape / real_of_int interp_target_shape);
                               full_pad = tgt - interp_target_shape;
                               padding = (py_int (fl (fst padding * fl (real_of_int full_pad))),
                                          py_int (fl (snd padding * fl (real_of_int full_pad))))
                           in Inr ((start, end'), rescale_factor, padding, interp_target_shape))
              else
                (let start = (if alignment = ''mid''
                              then py_int (fl (real_of_int (end' - out) / 2)) else start);
                     (start, end') = (if alignment = ''from_end'' then (end' - out, end')
                                      else (start, start + out))
                 in Inr ((start, end'), rescale_factor, (0, 0), tgt)))"

section \<open>Facts about the per-axis computation\<close>

lemma py_int_of_int: "py_int (real_of_int k) = k"
  by (simp add: py_int_def)

lemma py_int_zero: "py_int 0 = 0"
  by (simp add: py_int_def)

lemma py_int_half_even: "k mod 2 = 0 \<Longrightarrow> py_int (real_of_int k / 2) = k div 2"
proof -
  assume "k mod 2 = 0"
  then obtain m where k: "k = 2 * m" by auto
  have "real_of_int k / 2 = real_of_int m" by (simp add: k)
  then show ?thesis by (simp add: k py_int_of_int)
qed

lemma py_int_nonneg: "0 \<le> x \<Longrightarrow> 0 \<le> py_int x"
  by (simp add: py_int_def)

lemma py_int_le: "0 \<le> x \<Longrightarrow> real_of_int (py_int x) \<le> x"
  by (simp add: py_int_def)

text \<open>
  The two branches of the computation, read off a call that returned: the padding
  branch (\<open>out\<close> exceeds the input size) and the cropping branch.
\<close>

lemma crop_pad_axis_pad:
  assumes res: "crop_pad_axis n sf tgt al = Inr (sl, r, (pb, pa), its)"
    and out: "int n < calc_out n (real_of_int tgt * sf) al"
  shows "sl = (0, int n)"
    and "its = py_int (real n / sf)"
    and "its \<noteq> 0"
    and "sf \<noteq> 0"
    and "tgt \<noteq> 0"
    and "r = real n / real_of_int its"
    and "al = ''mid'' \<Longrightarrow> (its - tgt) mod 2 = 0"
    and "pb = (if al = ''from_end'' then tgt - its
               else if al = ''mid'' then (tgt - its) div 2 else 0)"
    and "pa = (if al = ''from_end'' then 0
               else if al = ''mid'' then (tgt - its) div 2 else tgt - its)"
proof -
  define i where "i = py_int (real n / sf)"
  define full_pad where "full_pad = tgt - i"
  have t: "tgt \<noteq> 0"
    using res by (auto simp: crop_pad_axis_def Let_def)
  have s: "sf \<noteq> 0"
    using res out t by (auto simp: crop_pad_axis_def Let_def)
  have m: "al = ''mid'' \<Longrightarrow> (i - tgt) mod 2 = 0"
    using res out t s unfolding i_def crop_pad_axis_def Let_def
    by (simp split: if_splits)
  have z: "i \<noteq> 0"
    using res out t s unfolding i_def crop_pad_axis_def Let_def
    by (simp split: if_splits)
  have fm: "al = ''mid'' \<Longrightarrow> full_pad mod 2 = 0"
    using m unfolding full_pad_def by presburger
  have "crop_pad_axis n sf tgt al =
      Inr ((0, int n), real n / real_of_int i,
           (py_int ((if al = ''from_end'' then 1 else if al = ''mid'' then 1 / 2 else 0)
                    * real_of_int full_pad),
            py_int ((if al = ''from_end'' then 0 else if al = ''mid'' then 1 / 2 else 1)
                    * real_of_int full_pad)), i)"
    unfolding crop_pad_axis_def Let_def
    apply (fold i_def)
    apply (fold full_pad_def)
    using out t s m z by auto
  then have eq: "crop_pad_axis n sf tgt al =
      Inr ((0, int n), real n / real_of_int i,
           (if al = ''from_end'' then full_pad else if al = ''mid'' then full_pad div 2 else 0,
            if al = ''from_end'' then 0 else if al = ''mid'' then full_pad div 2 else full_pad), i)"
    using fm by (simp add: py_int_of_int py_int_zero py_int_half_even)
  from Inr_inject [OF trans [OF sym [OF res] eq]] have "sl = (0, int n)" "r = real n / real_of_int i" "its = i"
    "pb = (if al = ''from_end'' then full_pad else if al = ''mid'' then full_pad div 2 else 0)"
    "pa = (if al = ''from_end'' then 0 else if al = ''mid'' then full_pad div 2 else full_pad)"
    by simp_all
  then show "sl = (0, int n)"
    and "its = py_int (real n / sf)"
    and "its \<noteq> 0"
    and "sf \<noteq> 0"
    and "tgt \<noteq> 0"
    and "r = real n / real_of_int its"
    and "al = ''mid'' \<Longrightarrow> (its - tgt) mod 2 = 0"
    and "pb = (if al = ''from_end'' then tgt - its
               else if al = ''mid'' then (tgt - its) div 2 else 0)"
    and "pa = (if al = ''from_end'' then 0
               else if al = ''mid'' then (tgt - its) div 2 else tgt - its)"
    using t s z m unfolding full_pad_def i_def by simp_all
qed

lemma calc_out_zero: "calc_out n 0 al = 0"
  by (simp add: calc_out_def py_int_zero)

lemma calc_out_nonneg: "0 \<le> x \<Longrightarrow> 0 \<le> calc_out n x al"
  by (simp add: calc_out_def py_int_nonneg)

text \<open>The cropping branch always returns when the target size is not zero.\<close>

lemma crop_pad_axis_crop_eq:
  assumes t: "tgt \<noteq> 0"
    and out: "calc_out n (real_of_int tgt * sf) al \<le> int n"
  shows "crop_pad_axis n sf tgt al =
      Inr (if al = ''from_end'' then (int n - calc_out n (real_of_int tgt * sf) al, int n)
           else if al = ''mid''
             then (py_int (real_of_int (int n - calc_out n (real_of_int tgt * sf) al) / 2),
                   py_int (real_of_int (int n - calc_out n (real_of_int tgt * sf) al) / 2)
                     + calc_out n (real_of_int tgt * sf) al)
           else (0, calc_out n (real_of_int tgt * sf) al),
           real_of_int (calc_out n (real_of_int tgt * sf) al) / real_of_int tgt, (0, 0), tgt)"
proof -
  define out' where "out' = calc_out n (real_of_int tgt * sf) al"
  have "crop_pad_axis n sf tgt al =
      Inr (if al = ''from_end'' then (int n - out', int n)
           else if al = ''mid'' then (py_int (real_of_int (int n - out') / 2),
                                      py_int (real_of_int (int n - out') / 2) + out')
           else (0, out'),
           real_of_int out' / real_of_int tgt, (0, 0), tgt)"
    unfolding crop_pad_axis_def Let_def
    apply (fold out'_def)
    using out t unfolding out'_def [symmetric] by auto
  then show ?thesis
    unfolding out'_def .
qed

lemma crop_pad_axis_crop:
  assumes res: "crop_pad_axis n sf tgt al = Inr (sl, r, (pb, pa), its)"
    and out: "calc_out n (real_of_int tgt * sf) al \<le> int n"
  shows "pb = 0" and "pa = 0" and "its = tgt" and "tgt \<noteq> 0"
    and "r = real_of_int (calc_out n (real_of_int tgt * sf) al) / real_of_int tgt"
    and "sl = (if al = ''from_end'' then (int n - calc_out n (real_of_int tgt * sf) al, int n)
             else if al = ''mid'' then (py_int (real_of_int (int n - calc_out n (real_of_int tgt * sf) al) / 2),
                    py_int (real_of_int (int n - calc_out n (real_of_int tgt * sf) al) / 2) + calc_out n (real_of_int tgt * sf) al)
             else (0, calc_out n (real_of_int tgt * sf) al))"
proof -
  have t: "tgt \<noteq> 0"
    using res by (auto simp: crop_pad_axis_def Let_def)
  from Inr_inject [OF trans [OF sym [OF res] crop_pad_axis_crop_eq [OF t out]]]
  show "pb = 0" and "pa = 0" and "its = tgt"
    and "r = real_of_int (calc_out n (real_of_int tgt * sf) al) / real_of_int tgt"
    and "sl = (if al = ''from_end'' then (int n - calc_out n (real_of_int tgt * sf) al, int n)
             else if al = ''mid'' then (py_int (real_of_int (int n - calc_out n (real_of_int tgt * sf) al) / 2),
                    py_int (real_of_int (int n - calc_out n (real_of_int tgt * sf) al) / 2) + calc_out n (real_of_int tgt * sf) al)
             else (0, calc_out n (real_of_int tgt * sf) al))"
    by simp_all
  show "tgt \<noteq> 0"
    by (rule t)
qed

section \<open>Padding sides and the two scenarios\<close>




text \<open>
  Claim C2 as the specification states it: for input size 9, target size 5, scale factor
  2 and alignment \<open>mid\<close> the extent \<open>out\<close> would be 8 and the call would return the crop
  window from 0 of length 8 with corrected scale 8/5. Neither holds of the code.
\<close>

theorem mid_9_5_not_cropped_to_8:
  "calc_out 9 (real_of_int 5 * 2) ''mid'' \<noteq> 8
   \<and> crop_pad_axis 9 2 5 ''mid'' \<noteq> Inr ((0, 8), 8 / 5, (0, 0), 5)"
  by (simp add: crop_pad_axis_def calc_out_def py_int_def)

text \<open>
  Claim C2, amended: for input size 9, target size 5, scale factor 2 and alignment
  \<open>mid\<close> the source size is 10 and the parity rule leaves \<open>out = 10\<close>, which is already
  even. This exceeds the input size 9, so the padding branch runs: the interpolation
  size is \<open>int(9 / 2) = 4\<close>, its distance to the target size 5 is odd, and the call
  raises \<^verbatim>\<open>NotImplementedError\<close>.
\<close>

theorem mid_9_5_raises_not_implemented:
  "calc_out 9 (real_of_int 5 * 2) ''mid'' = 10
   \<and> py_int (real 9 / 2) = 4
   \<and> crop_pad_axis 9 2 5 ''mid'' = Inl NotImplementedError"
  by (simp add: crop_pad_axis_def calc_out_def py_int_def)

section \<open>Invariants of a returned plan\<close>



text \<open>
  Claim C5: for every call that returns, it is never the case that both
  \<open>pad_before + pad_after > 0\<close> and \<open>crop_end - crop_start < input_size\<close>: an axis that
  is padded keeps its whole input, and an axis that is cropped is not padded.
\<close>

theorem never_pad_and_crop:
  assumes "crop_pad_axis n sf tgt al = Inr ((start, end'), r, (pb, pa), its)"
  shows "\<not> (0 < pb + pa \<and> end' - start < int n)"
proof (cases "calc_out n (real_of_int tgt * sf) al \<le> int n")
  case True
  from crop_pad_axis_crop(1,2) [OF assms True] show ?thesis by simp
next
  case False
  then have "int n < calc_out n (real_of_int tgt * sf) al" by simp
  from crop_pad_axis_pad(1) [OF assms this] show ?thesis by simp
qed

theorem never_pad_and_crop_witness:
  "crop_pad_axis 10 (3 / 2) 5 ''mid'' = Inr ((2, 8), 6 / 5, (0, 0), 5)
   \<and> \<not> ((0::int) < 0 + 0 \<and> (8::int) - 2 < int 10)
   \<and> crop_pad_axis 4 1 10 ''mid'' = Inr ((0, 4), 1, (3, 3), 4)
   \<and> \<not> ((0::int) < 3 + 3 \<and> (4::int) - 0 < int 4)"
proof -
  have a: "crop_pad_axis 10 (3 / 2) 5 ''mid'' = Inr ((2, 8), 6 / 5, (0, 0), 5)"
    by (simp add: crop_pad_axis_def calc_out_def py_int_def)
  have b: "crop_pad_axis 4 1 10 ''mid'' = Inr ((0, 4), 1, (3, 3), 4)"
    by (simp add: crop_pad_axis_def calc_out_def py_int_def)
  show ?thesis
    using a b never_pad_and_crop [OF a] never_pad_and_crop [OF b] by simp
qed

section \<open>Rounding to doubles\<close>

lemma round_even_error: "\<bar>of_int (round_even y) - y\<bar> \<le> 1 / 2"
  unfolding round_even_def Let_def by (auto simp: abs_if) linarith+

lemma round_even_unique:
  assumes "\<bar>z - of_int k\<bar> < 1 / 2"
  shows "round_even z = k"
proof -
  have "\<bar>of_int (round_even z) - z\<bar> \<le> 1 / 2" by (rule round_even_error)
  with assms have "\<bar>real_of_int (round_even z) - real_of_int k\<bar> < 1" by linarith
  then have "\<bar>real_of_int (round_even z - k)\<bar> < 1" by simp
  then have "\<bar>round_even z - k\<bar> < 1" by linarith
  then show ?thesis by simp
qed

lemma round_even_of_int: "round_even (of_int k) = k"
  by (rule round_even_unique) simp

text \<open>How \<^const>\<open>fl64\<close> is computed once the binade of the argument is known.\<close>

lemma fl64_eval:
  assumes "2 powi e0 \<le> \<bar>x\<bar>" and "\<bar>x\<bar> < 2 powi (e0 + 1)"
  shows "fl64 x = of_int (round_even (x / 2 powi (e0 - 52))) * 2 powi (e0 - 52)"
proof -
  have pos: "0 < \<bar>x\<bar>"
    using assms(1) by (smt (verit) zero_less_power_int)
  have a: "2 powr real_of_int e0 = (2::real) powi e0"
    by (simp add: powr_real_of_int')
  have b: "2 powr (real_of_int e0 + 1) = (2::real) powi (e0 + 1)"
    using powr_real_of_int' [of 2 "e0 + 1"] by simp
  have "\<lfloor>log 2 \<bar>x\<bar>\<rfloor> = e0"
    using assms pos unfolding floor_log_eq_powr_iff [OF pos, of 2 e0, simplified] a b by simp
  with pos show ?thesis
    by (simp add: fl64_def Let_def)
qed

lemma fl64_error: "\<bar>fl64 x - x\<bar> \<le> 2 powi (- 53) * \<bar>x\<bar>"
proof (cases "x = 0")
  case True
  then show ?thesis by (simp add: fl64_def)
next
  case False
  define e0 where "e0 = \<lfloor>log 2 \<bar>x\<bar>\<rfloor>"
  define e where "e = e0 - 52"
  have pos: "0 < \<bar>x\<bar>" using False by simp
  have lo: "2 powi e0 \<le> \<bar>x\<bar>"
    using floor_log_eq_powr_iff [of "\<bar>x\<bar>" 2 e0] pos
    by (simp add: e0_def powr_real_of_int')
  have p: "(0::real) < 2 powi e" by simp
  have fl: "fl64 x = of_int (round_even (x / 2 powi e)) * 2 powi e"
    using False by (simp add: fl64_def Let_def e_def e0_def)
  have "fl64 x - x = (of_int (round_even (x / 2 powi e)) - x / 2 powi e) * 2 powi e"
    using p by (simp add: fl field_simps)
  then have "\<bar>fl64 x - x\<bar> = \<bar>of_int (round_even (x / 2 powi e)) - x / 2 powi e\<bar> * 2 powi e"
    using p by (simp add: abs_mult)
  also have "\<dots> \<le> 1 / 2 * 2 powi e"
    using round_even_error [of "x / 2 powi e"] p by (intro mult_right_mono) simp_all
  also have "1 / 2 * (2::real) powi e = 2 powi (- 53) * 2 powi e0"
    unfolding e_def by (simp add: power_int_diff power_int_minus)
  also have "\<dots> \<le> 2 powi (- 53) * \<bar>x\<bar>"
    using lo by (intro mult_left_mono) simp_all
  finally show ?thesis .
qed

lemma fl64_exact:
  assumes "x / 2 powi (\<lfloor>log 2 \<bar>x\<bar>\<rfloor> - 52) = of_int m"
  shows "fl64 x = x"
proof (cases "x = 0")
  case True
  then show ?thesis by (simp add: fl64_def)
next
  case False
  have "(0::real) < 2 powi (\<lfloor>log 2 \<bar>x\<bar>\<rfloor> - 52)" by simp
  then have "x = of_int m * 2 powi (\<lfloor>log 2 \<bar>x\<bar>\<rfloor> - 52)"
    using assms by (simp add: field_simps)
  with False assms show ?thesis
    by (simp add: fl64_def Let_def round_even_of_int)
qed

lemma fl64_of_int:
  assumes "\<bar>k\<bar> < 2 ^ 53"
  shows "fl64 (of_int k) = of_int k"
proof (cases "k = 0")
  case True
  then show ?thesis by (simp add: fl64_def)
next
  case False
  define e0 where "e0 = \<lfloor>log 2 \<bar>real_of_int k\<bar>\<rfloor>"
  have pos: "0 < \<bar>real_of_int k\<bar>" using False by simp
  have "\<bar>real_of_int k\<bar> < 2 powr 53"
    using assms by (simp flip: of_int_abs add: of_int_less_numeral_power_cancel_iff)
  then have "log 2 \<bar>real_of_int k\<bar> < 53"
    using pos by (simp add: log_less_iff)
  then have "e0 < 53"
    unfolding e0_def by linarith
  then have e: "e0 - 52 \<le> 0" by simp
  have "real_of_int k / 2 powi (e0 - 52) = real_of_int k * 2 ^ nat (52 - e0)"
    using e by (simp add: power_int_def field_simps)
  also have "\<dots> = of_int (k * 2 ^ nat (52 - e0))" by simp
  finally show ?thesis
    unfolding e0_def by (rule fl64_exact)
qed

lemma fl64_zero: "fl64 0 = 0"
  by (simp add: fl64_def)

lemma fl64_one: "fl64 1 = 1"
  using fl64_of_int [of 1] by simp

lemma fl64_numeral: "(numeral w :: int) < 2 ^ 53 \<Longrightarrow> fl64 (numeral w) = numeral w"
  using fl64_of_int [of "numeral w"] by simp

lemma rounds_like_double_fl64: "rounds_like_double fl64"
  unfolding rounds_like_double_def using fl64_error by blast

text \<open>
  Three roundings away from an integer of at most \<open>2\<^sup>5\<^sup>0\<close> is less than a half away:
  for the product \<open>(out / tgt) * tgt\<close> and for the quotient \<open>n / (n / its)\<close>.
\<close>

lemma product_recovered:
  fixes out tgt :: int
  assumes fl: "rounds_like_double fl" and t: "tgt \<noteq> 0" and o: "\<bar>out\<bar> \<le> 2 ^ 50"
  shows "\<bar>fl (fl (real_of_int out / real_of_int tgt) * fl (real_of_int tgt)) - real_of_int out\<bar> < 1 / 2"
proof -
  define u :: real where "u = 2 powi (- 53)"
  define q where "q = real_of_int out / real_of_int tgt"
  define r where "r = fl q"
  define t' where "t' = fl (real_of_int tgt)"
  define a where "a = \<bar>q\<bar>"
  define b where "b = \<bar>real_of_int tgt\<bar>"
  have u0: "0 \<le> u" by (simp add: u_def)
  have a0: "0 \<le> a" and b0: "0 \<le> b" by (simp_all add: a_def b_def)
  have err: "\<bar>fl x - x\<bar> \<le> u * \<bar>x\<bar>" for x
    using fl by (simp add: rounds_like_double_def u_def)
  have qt: "q * real_of_int tgt = real_of_int out"
    using t by (simp add: q_def)
  have "a * b = \<bar>q * real_of_int tgt\<bar>"
    by (simp only: a_def b_def abs_mult)
  then have ab: "a * b = \<bar>real_of_int out\<bar>"
    by (simp only: qt)
  have rq: "\<bar>r - q\<bar> \<le> u * a"
    unfolding r_def a_def by (rule err)
  have tt: "\<bar>t' - real_of_int tgt\<bar> \<le> u * b"
    unfolding t'_def b_def by (rule err)
  have t'b: "\<bar>t'\<bar> \<le> b + u * b"
    using tt unfolding b_def by linarith
  have split: "r * t' - real_of_int out = (r - q) * t' + q * (t' - real_of_int tgt)"
    using qt by (simp add: algebra_simps)
  have "\<bar>(r - q) * t' + q * (t' - real_of_int tgt)\<bar>
      \<le> \<bar>(r - q) * t'\<bar> + \<bar>q * (t' - real_of_int tgt)\<bar>"
    by (rule abs_triangle_ineq)
  then have "\<bar>r * t' - real_of_int out\<bar> \<le> \<bar>r - q\<bar> * \<bar>t'\<bar> + \<bar>q\<bar> * \<bar>t' - real_of_int tgt\<bar>"
    unfolding split abs_mult .
  also have "\<dots> \<le> (u * a) * (b + u * b) + a * (u * b)"
    using rq t'b tt u0 a0 b0
    by (intro add_mono mult_mono) (simp_all add: a_def)
  also have "\<dots> = (a * b) * (2 * u + u * u)"
    by (simp add: algebra_simps)
  finally have p: "\<bar>r * t' - real_of_int out\<bar> \<le> (a * b) * (2 * u + u * u)" .
  then have pa: "\<bar>r * t'\<bar> \<le> (a * b) * (1 + 2 * u + u * u)"
    unfolding ab by (simp add: algebra_simps)
  have "\<bar>fl (r * t') - r * t'\<bar> \<le> u * \<bar>r * t'\<bar>"
    by (rule err)
  also have "\<dots> \<le> u * ((a * b) * (1 + 2 * u + u * u))"
    using pa u0 by (rule mult_left_mono)
  finally have "\<bar>fl (r * t') - real_of_int out\<bar>
      \<le> u * ((a * b) * (1 + 2 * u + u * u)) + (a * b) * (2 * u + u * u)"
    using p by linarith
  also have "\<dots> = (a * b) * (3 * u + 3 * u * u + u * u * u)"
    by (simp add: algebra_simps)
  also have "\<dots> \<le> 2 ^ 50 * (3 * u + 3 * u * u + u * u * u)"
    using o u0 unfolding ab by (intro mult_right_mono) simp_all
  also have "\<dots> < 1 / 2"
    by (simp add: u_def)
  finally show ?thesis
    unfolding r_def t'_def q_def .
qed

lemma quotient_recovered:
  fixes n :: nat and its :: int
  assumes fl: "rounds_like_double fl" and n: "n \<noteq> 0" and i0: "its \<noteq> 0" and ib: "\<bar>its\<bar> \<le> 2 ^ 50"
  shows "\<bar>fl (fl (real n) / fl (real n / real_of_int its)) - real_of_int its\<bar> < 1 / 2"
proof -
  define u :: real where "u = 2 powi (- 53)"
  define i where "i = real_of_int its"
  define q where "q = real n / i"
  define r where "r = fl q"
  define n' where "n' = fl (real n)"
  define D where "D = \<bar>n' / r - i\<bar>"
  have u0: "0 \<le> u" and u1: "u < 1" by (simp_all add: u_def)
  have err: "\<bar>fl x - x\<bar> \<le> u * \<bar>x\<bar>" for x
    using fl by (simp add: rounds_like_double_def u_def)
  have i_ne: "i \<noteq> 0" using i0 by (simp add: i_def)
  have q_ne: "q \<noteq> 0" using n i_ne by (simp add: q_def)
  have iq: "i * q = real n" using i_ne by (simp add: q_def)
  have "\<bar>i\<bar> * \<bar>q\<bar> = \<bar>i * q\<bar>" by (simp only: abs_mult)
  then have aiq: "\<bar>i\<bar> * \<bar>q\<bar> = real n" by (simp add: iq)
  have rq: "\<bar>r - q\<bar> \<le> u * \<bar>q\<bar>" unfolding r_def by (rule err)
  have nn: "\<bar>n' - real n\<bar> \<le> u * real n" unfolding n'_def using err [of "real n"] by simp
  have r_lo: "(1 - u) * \<bar>q\<bar> \<le> \<bar>r\<bar>"
    using rq by (simp add: algebra_simps; linarith)
  have "0 < (1 - u) * \<bar>q\<bar>" using u1 q_ne by simp
  with r_lo have r_pos: "0 < \<bar>r\<bar>" by linarith
  then have r_ne: "r \<noteq> 0" by simp
  have D0: "0 \<le> D" by (simp add: D_def)
  have "(n' / r - i) * r = (n' - real n) + i * (q - r)"
    using r_ne iq by (simp add: algebra_simps)
  then have "D * \<bar>r\<bar> = \<bar>(n' - real n) + i * (q - r)\<bar>"
    by (simp only: D_def abs_mult [symmetric])
  also have "\<dots> \<le> \<bar>n' - real n\<bar> + \<bar>i * (q - r)\<bar>" by (rule abs_triangle_ineq)
  also have "\<bar>i * (q - r)\<bar> = \<bar>i\<bar> * \<bar>r - q\<bar>" by (simp add: abs_mult abs_minus_commute)
  also have "\<bar>n' - real n\<bar> + \<bar>i\<bar> * \<bar>r - q\<bar> \<le> u * real n + \<bar>i\<bar> * (u * \<bar>q\<bar>)"
    using nn rq by (intro add_mono mult_left_mono) simp_all
  also have "\<dots> = 2 * u * (\<bar>i\<bar> * \<bar>q\<bar>)" by (simp add: aiq [symmetric] algebra_simps)
  finally have Dr: "D * \<bar>r\<bar> \<le> 2 * u * (\<bar>i\<bar> * \<bar>q\<bar>)" .
  have "D * ((1 - u) * \<bar>q\<bar>) \<le> D * \<bar>r\<bar>"
    using r_lo D0 by (rule mult_left_mono)
  with Dr have "(D * (1 - u)) * \<bar>q\<bar> \<le> (2 * u * \<bar>i\<bar>) * \<bar>q\<bar>"
    by (simp add: algebra_simps)
  then have Db: "D * (1 - u) \<le> 2 * u * \<bar>i\<bar>"
    using q_ne by simp
  have "\<bar>n' / r\<bar> \<le> \<bar>i\<bar> + D"
    unfolding D_def by linarith
  then have "u * \<bar>n' / r\<bar> \<le> u * (\<bar>i\<bar> + D)"
    using u0 by (rule mult_left_mono)
  moreover have "\<bar>fl (n' / r) - n' / r\<bar> \<le> u * \<bar>n' / r\<bar>" by (rule err)
  ultimately have "\<bar>fl (n' / r) - i\<bar> \<le> u * \<bar>i\<bar> + (1 + u) * D"
    unfolding D_def by (simp add: algebra_simps; linarith)
  then have "(1 - u) * \<bar>fl (n' / r) - i\<bar> \<le> (1 - u) * (u * \<bar>i\<bar> + (1 + u) * D)"
    using u1 by (intro mult_left_mono) simp_all
  also have "\<dots> = (1 - u) * u * \<bar>i\<bar> + (1 + u) * (D * (1 - u))"
    by (simp add: algebra_simps)
  also have "\<dots> \<le> (1 - u) * u * \<bar>i\<bar> + (1 + u) * (2 * u * \<bar>i\<bar>)"
    using Db u0 by (intro add_left_mono mult_left_mono) simp_all
  also have "\<dots> = \<bar>i\<bar> * (3 * u + u * u)" by (simp add: algebra_simps)
  also have "\<dots> \<le> 2 ^ 50 * (3 * u + u * u)"
    using ib u0 unfolding i_def by (intro mult_right_mono) simp_all
  also have "\<dots> < (1 - u) * (1 / 2)" by (simp add: u_def)
  finally have "(1 - u) * \<bar>fl (n' / r) - i\<bar> < (1 - u) * (1 / 2)" .
  then have "\<bar>fl (n' / r) - i\<bar> < 1 / 2"
    using u1 by simp
  then show ?thesis
    unfolding n'_def r_def q_def i_def .
qed

lemma calc_out_fl_exact: "calc_out_fl (\<lambda>x. x) = calc_out"
  by (intro ext) (simp add: calc_out_fl_def calc_out_def)

lemma crop_pad_axis_fl_exact: "crop_pad_axis_fl (\<lambda>x. x) = crop_pad_axis"
  by (intro ext) (simp add: crop_pad_axis_fl_def crop_pad_axis_def calc_out_fl_exact)

lemma crop_pad_axis_fl_crop:
  assumes res: "crop_pad_axis_fl fl n sf tgt al = Inr plan"
    and out: "calc_out_fl fl n (fl (fl (real_of_int tgt) * sf)) al \<le> int n"
  shows "tgt \<noteq> 0"
    and "fst (snd plan)
       = fl (real_of_int (calc_out_fl fl n (fl (fl (real_of_int tgt) * sf)) al) / real_of_int tgt)"
proof -
  show t: "tgt \<noteq> 0"
    using res by (auto simp: crop_pad_axis_fl_def Let_def)
  show "fst (snd plan)
       = fl (real_of_int (calc_out_fl fl n (fl (fl (real_of_int tgt) * sf)) al) / real_of_int tgt)"
    using res out t unfolding crop_pad_axis_fl_def Let_def
    by (auto split: if_splits prod.splits)
qed

lemma crop_pad_axis_fl_pad:
  assumes res: "crop_pad_axis_fl fl n sf tgt al = Inr plan"
    and out: "int n < calc_out_fl fl n (fl (fl (real_of_int tgt) * sf)) al"
  shows "snd (snd (snd plan)) \<noteq> 0"
    and "snd (snd (snd plan)) = py_int (fl (fl (real n) / sf))"
    and "fst (snd plan) = fl (real n / real_of_int (snd (snd (snd plan))))"
proof -
  have t: "tgt \<noteq> 0"
    using res by (auto simp: crop_pad_axis_fl_def Let_def)
  have all: "snd (snd (snd plan)) \<noteq> 0
      \<and> snd (snd (snd plan)) = py_int (fl (fl (real n) / sf))
      \<and> fst (snd plan) = fl (real n / real_of_int (snd (snd (snd plan))))"
    using res out t unfolding crop_pad_axis_fl_def Let_def
    by (auto split: if_splits)
  then show "snd (snd (snd plan)) \<noteq> 0"
    and "snd (snd (snd plan)) = py_int (fl (fl (real n) / sf))"
    and "fst (snd plan) = fl (real n / real_of_int (snd (snd (snd plan))))"
    by blast+
qed

text \<open>
  The doubles met by the call with input size 100, scale factor 0.575 and target size
  100: 0.575 itself, \<open>100 * 0.575\<close>, \<open>57 / 100\<close> and \<open>0.57 * 100\<close> (arguments in lowest
  terms).
\<close>

lemma double_575: "fl64 (575 / 1000) = 2589569785738035 / 2 ^ 52"
  by (subst fl64_eval [of "- 1"]) (simp_all add: round_even_def)

lemma double_100_times_575: "fl64 (64739244643450875 / 1125899906842624) = 8092405580431359 / 2 ^ 47"
  by (subst fl64_eval [of 5]) (simp_all add: round_even_def)

lemma double_57_by_100: "fl64 (57 / 100) = 5134103575202365 / 2 ^ 53"
  by (subst fl64_eval [of "- 1"]) (simp_all add: round_even_def)

lemma double_57_by_100_times_100: "fl64 (128352589380059125 / 2251799813685248) = 8022036836253695 / 2 ^ 47"
  by (subst fl64_eval [of 5]) (simp_all add: round_even_def)

section \<open>Recovering the extent from the corrected scale\<close>

text \<open>
  Claim C6 as the specification states it: \<open>corrected_scale * target_size\<close>, rounded by
  the rule of the branch (\<^verbatim>\<open>int\<close>), would be the extent used. In the padding branch
  the product is not meant to be that extent: for input size 4, target size 10, scale
  factor 1 and alignment \<open>from_start\<close> the corrected scale is 1 and the interpolation size
  4, but \<open>int(1 * 10)\<close> is 10. In the cropping branch the doubles fall short: for input
  size 100, target size 100 and scale factor 0.575, \<open>out\<close> is 57, the corrected scale is
  the double 0.57, and \<open>int(0.57 * 100)\<close> is 56.
\<close>

theorem scale_times_target_not_recovered:
  "crop_pad_axis_fl fl64 4 1 10 ''from_start'' = Inr ((0, 4), 1, (0, 6), 4)
   \<and> py_int (fl64 (1 * fl64 (real_of_int 10))) = 10
   \<and> crop_pad_axis_fl fl64 100 (fl64 (575 / 1000)) 100 ''from_start''
       = Inr ((0, 57), 5134103575202365 / 2 ^ 53, (0, 0), 100)
   \<and> py_int (fl64 (5134103575202365 / 2 ^ 53 * fl64 (real_of_int 100))) = 56"
proof -
  have "crop_pad_axis_fl fl64 4 1 10 ''from_start'' = Inr ((0, 4), 1, (0, 6), 4)"
    by (simp add: crop_pad_axis_fl_def calc_out_fl_def py_int_def fl64_zero fl64_one fl64_numeral)
  moreover have "py_int (fl64 (1 * fl64 (real_of_int 10))) = 10"
    by (simp add: py_int_def fl64_numeral)
  moreover have "crop_pad_axis_fl fl64 100 (fl64 (575 / 1000)) 100 ''from_start''
       = Inr ((0, 57), 5134103575202365 / 2 ^ 53, (0, 0), 100)"
    unfolding double_575
    by (simp add: crop_pad_axis_fl_def calc_out_fl_def py_int_def fl64_numeral
        double_100_times_575 double_57_by_100)
  moreover have "py_int (fl64 (5134103575202365 / 2 ^ 53 * fl64 (real_of_int 100))) = 56"
    by (simp add: py_int_def fl64_numeral double_57_by_100_times_100)
  ultimately show ?thesis
    by blast
qed

text \<open>
  Claim C6, amended, for the computation on doubles: for every call that returns, in
  the cropping branch the corrected scale is the double \<open>out / target_size\<close>, and
  \<open>corrected_scale * target_size\<close> rounded to the nearest integer is \<open>out\<close>, for \<open>out\<close> up
  to \<open>2\<^sup>5\<^sup>0\<close>; in the padding branch the corrected scale is the double
  \<open>input_size / interp_target_size\<close>, and \<open>input_size / corrected_scale\<close> rounded to the
  nearest integer is \<open>interp_target_size\<close>, for interpolation sizes up to \<open>2\<^sup>5\<^sup>0\<close>.
\<close>

theorem corrected_scale_recoverable:
  assumes res: "crop_pad_axis_fl fl64 n sf tgt al = Inr (sl, r, pad, its)"
  shows "(calc_out_fl fl64 n (fl64 (fl64 (real_of_int tgt) * sf)) al \<le> int n
            \<and> \<bar>calc_out_fl fl64 n (fl64 (fl64 (real_of_int tgt) * sf)) al\<bar> \<le> 2 ^ 50
          \<longrightarrow> r = fl64 (real_of_int (calc_out_fl fl64 n (fl64 (fl64 (real_of_int tgt) * sf)) al)
                         / real_of_int tgt)
            \<and> round_even (fl64 (r * fl64 (real_of_int tgt)))
                = calc_out_fl fl64 n (fl64 (fl64 (real_of_int tgt) * sf)) al)
       \<and> (int n < calc_out_fl fl64 n (fl64 (fl64 (real_of_int tgt) * sf)) al \<and> \<bar>its\<bar> \<le> 2 ^ 50
          \<longrightarrow> r = fl64 (real n / real_of_int its)
            \<and> round_even (fl64 (fl64 (real n) / r)) = its)"
proof (rule conjI; rule impI)
  let ?out = "calc_out_fl fl64 n (fl64 (fl64 (real_of_int tgt) * sf)) al"
  assume "?out \<le> int n \<and> \<bar>?out\<bar> \<le> 2 ^ 50"
  then have crop: "?out \<le> int n" and small: "\<bar>?out\<bar> \<le> 2 ^ 50"
    by simp_all
  from crop_pad_axis_fl_crop [OF res crop]
  have t: "tgt \<noteq> 0" and r: "r = fl64 (real_of_int ?out / real_of_int tgt)"
    by simp_all
  have "\<bar>fl64 (r * fl64 (real_of_int tgt)) - real_of_int ?out\<bar> < 1 / 2"
    unfolding r using rounds_like_double_fl64 t small by (rule product_recovered)
  then have "round_even (fl64 (r * fl64 (real_of_int tgt))) = ?out"
    by (rule round_even_unique)
  with r show "r = fl64 (real_of_int ?out / real_of_int tgt)
      \<and> round_even (fl64 (r * fl64 (real_of_int tgt))) = ?out"
    by simp
next
  let ?out = "calc_out_fl fl64 n (fl64 (fl64 (real_of_int tgt) * sf)) al"
  assume "int n < ?out \<and> \<bar>its\<bar> \<le> 2 ^ 50"
  then have pad: "int n < ?out" and small: "\<bar>its\<bar> \<le> 2 ^ 50"
    by simp_all
  from crop_pad_axis_fl_pad [OF res pad]
  have i0: "its \<noteq> 0" and i: "its = py_int (fl64 (fl64 (real n) / sf))"
    and r: "r = fl64 (real n / real_of_int its)"
    by simp_all
  have n0: "n \<noteq> 0"
    using i0 i by (cases "n = 0") (simp_all add: fl64_zero py_int_zero)
  have "\<bar>fl64 (fl64 (real n) / r) - real_of_int its\<bar> < 1 / 2"
    unfolding r using rounds_like_double_fl64 n0 i0 small by (rule quotient_recovered)
  then have "round_even (fl64 (fl64 (real n) / r)) = its"
    by (rule round_even_unique)
  with r show "r = fl64 (real n / real_of_int its) \<and> round_even (fl64 (fl64 (real n) / r)) = its"
    by simp
qed

theorem corrected_scale_recoverable_witness:
  "crop_pad_axis_fl fl64 100 (fl64 (575 / 1000)) 100 ''from_start''
     = Inr ((0, 57), 5134103575202365 / 2 ^ 53, (0, 0), 100)
   \<and> calc_out_fl fl64 100 (fl64 (fl64 (real_of_int 100) * fl64 (575 / 1000))) ''from_start'' = 57
   \<and> (57 :: int) \<le> int 100 \<and> \<bar>57 :: int\<bar> \<le> 2 ^ 50
   \<and> round_even (fl64 (5134103575202365 / 2 ^ 53 * fl64 (real_of_int 100))) = 57
   \<and> crop_pad_axis_fl fl64 4 1 10 ''from_start'' = Inr ((0, 4), 1, (0, 6), 4)
   \<and> calc_out_fl fl64 4 (fl64 (fl64 (real_of_int 10) * 1)) ''from_start'' = 10
   \<and> int 4 < 10 \<and> \<bar>4 :: int\<bar> \<le> 2 ^ 50
   \<and> round_even (fl64 (fl64 (real 4) / 1)) = 4"
proof -
  have a: "crop_pad_axis_fl fl64 100 (fl64 (575 / 1000)) 100 ''from_start''
     = Inr ((0, 57), 5134103575202365 / 2 ^ 53, (0, 0), 100)"
    unfolding double_575
    by (simp add: crop_pad_axis_fl_def calc_out_fl_def py_int_def fl64_numeral
        double_100_times_575 double_57_by_100)
  have out_a: "calc_out_fl fl64 100 (fl64 (fl64 (real_of_int 100) * fl64 (575 / 1000))) ''from_start'' = 57"
    unfolding double_575
    by (simp add: calc_out_fl_def py_int_def fl64_numeral double_100_times_575)
  have b: "crop_pad_axis_fl fl64 4 1 10 ''from_start'' = Inr ((0, 4), 1, (0, 6), 4)"
    by (simp add: crop_pad_axis_fl_def calc_out_fl_def py_int_def fl64_zero fl64_one fl64_numeral)
  have out_b: "calc_out_fl fl64 4 (fl64 (fl64 (real_of_int 10) * 1)) ''from_start'' = 10"
    by (simp add: calc_out_fl_def py_int_def fl64_numeral)
  have crop: "calc_out_fl fl64 100 (fl64 (fl64 (real_of_int 100) * fl64 (575 / 1000))) ''from_start''
        \<le> int 100
      \<and> \<bar>calc_out_fl fl64 100 (fl64 (fl64 (real_of_int 100) * fl64 (575 / 1000))) ''from_start''\<bar>
        \<le> 2 ^ 50"
    unfolding out_a by simp
  have pad: "int 4 < calc_out_fl fl64 4 (fl64 (fl64 (real_of_int 10) * 1)) ''from_start''
      \<and> \<bar>4 :: int\<bar> \<le> 2 ^ 50"
    unfolding out_b by simp
  from corrected_scale_recoverable [OF a, THEN conjunct1, THEN mp, OF crop]
  have ra: "round_even (fl64 (5134103575202365 / 2 ^ 53 * fl64 (real_of_int 100))) = 57"
    unfolding out_a by (rule conjunct2)
  from corrected_scale_recoverable [OF b, THEN conjunct2, THEN mp, OF pad]
  have rb: "round_even (fl64 (fl64 (real 4) / 1)) = 4"
    by (rule conjunct2)
  have "(57 :: int) \<le> int 100 \<and> \<bar>57 :: int\<bar> \<le> 2 ^ 50 \<and> int 4 < 10 \<and> \<bar>4 :: int\<bar> \<le> 2 ^ 50"
    by simp
  with a out_a ra b out_b rb show ?thesis
    by blast
qed

section \<open>The unimplemented case and the bounds of the slice\<close>

text \<open>
  Claim C9: in the padding branch under \<open>mid\<close> alignment, whenever the difference
  between the interpolation size \<open>int(input_size / scale_factor)\<close> and the target size
  is odd, the call raises \<^verbatim>\<open>NotImplementedError\<close> and returns no plan. No other
  exception can come first: in the padding branch neither the target size nor the scale
  factor is zero.
\<close>

theorem mid_odd_shortfall_raises:
  assumes out: "int n < calc_out n (real_of_int tgt * sf) ''mid''"
    and odd: "(py_int (real n / sf) - tgt) mod 2 \<noteq> 0"
  shows "crop_pad_axis n sf tgt ''mid'' = Inl NotImplementedError"
proof -
  have t: "tgt \<noteq> 0"
    using out by (auto simp: calc_out_zero)
  have s: "sf \<noteq> 0"
    using out by (auto simp: calc_out_zero)
  show ?thesis
    unfolding crop_pad_axis_def Let_def
    using out odd t s by simp
qed

theorem mid_odd_shortfall_raises_witness:
  "int 9 < calc_out 9 (real_of_int 5 * 2) ''mid''
   \<and> (py_int (real 9 / 2) - 5) mod 2 \<noteq> 0
   \<and> crop_pad_axis 9 2 5 ''mid'' = Inl NotImplementedError"
proof -
  have a: "int 9 < calc_out 9 (real_of_int 5 * 2) ''mid''"
    by (simp add: calc_out_def py_int_def)
  have b: "(py_int (real 9 / 2) - 5) mod 2 \<noteq> 0"
    by (simp add: py_int_def)
  from a b mid_odd_shortfall_raises [OF a b] show ?thesis
    by blast
qed

text \<open>
  Claim C10: for positive input size, target size and scale factor, a call that takes
  the cropping branch (\<open>out \<le> input_size\<close>) returns, and its slice satisfies
  \<open>0 \<le> start \<le> end \<le> input_size\<close>, whatever the alignment; so the slicing of the
  tensor in \<^verbatim>\<open>_interpolate\<close> stays inside the input.
\<close>

theorem crop_slice_within_bounds:
  assumes n: "0 < n" and t: "0 < tgt" and s: "0 < sf"
    and out: "calc_out n (real_of_int tgt * sf) al \<le> int n"
  shows "\<exists>start end' r pad its.
           crop_pad_axis n sf tgt al = Inr ((start, end'), r, pad, its)
           \<and> 0 \<le> start \<and> start \<le> end' \<and> end' \<le> int n"
proof -
  define out' where "out' = calc_out n (real_of_int tgt * sf) al"
  define mid_start where "mid_start = py_int (real_of_int (int n - out') / 2)"
  have o0: "0 \<le> out'"
    unfolding out'_def using t s by (intro calc_out_nonneg) simp
  have on: "out' \<le> int n"
    using out unfolding out'_def .
  have d0: "0 \<le> real_of_int (int n - out') / 2"
    using on by simp
  have m0: "0 \<le> mid_start"
    unfolding mid_start_def using d0 by (rule py_int_nonneg)
  have "real_of_int mid_start \<le> real_of_int (int n - out') / 2"
    unfolding mid_start_def using d0 by (rule py_int_le)
  then have "2 * real_of_int mid_start \<le> real_of_int (int n - out')"
    by simp
  then have "real_of_int (2 * mid_start) \<le> real_of_int (int n - out')"
    by simp
  then have "2 * mid_start \<le> int n - out'"
    by (simp only: of_int_le_iff)
  then have mn: "mid_start + out' \<le> int n"
    using m0 by linarith
  have eq: "crop_pad_axis n sf tgt al =
      Inr (if al = ''from_end'' then (int n - out', int n)
           else if al = ''mid'' then (mid_start, mid_start + out')
           else (0, out'),
           real_of_int out' / real_of_int tgt, (0, 0), tgt)"
    unfolding out'_def mid_start_def
    using crop_pad_axis_crop_eq [OF _ out] t by simp
  show ?thesis
  proof (cases "al = ''from_end''")
    case True
    with eq o0 on show ?thesis by simp
  next
    case False
    show ?thesis
    proof (cases "al = ''mid''")
      case True
      with eq o0 m0 mn show ?thesis by simp
    next
      case False
      with \<open>al \<noteq> ''from_end''\<close> eq o0 on show ?thesis by simp
    qed
  qed
qed

theorem crop_slice_within_bounds_witness:
  "(0::nat) < 10 \<and> (0::int) < 5 \<and> (0::real) < 3 / 2
   \<and> calc_out 10 (real_of_int 5 * (3 / 2)) ''mid'' \<le> int 10
   \<and> (\<exists>start end' r pad its.
           crop_pad_axis 10 (3 / 2) 5 ''mid'' = Inr ((start, end'), r, pad, its)
           \<and> 0 \<le> start \<and> start \<le> end' \<and> end' \<le> int 10)"
proof -
  have n: "(0::nat) < 10" by simp
  have t: "(0::int) < 5" by simp
  have s: "(0::real) < 3 / 2" by simp
  have out: "calc_out 10 (real_of_int 5 * (3 / 2)) ''mid'' \<le> int 10"
    by (simp add: calc_out_def py_int_def)
  from n t s out crop_slice_within_bounds [OF n t s out] show ?thesis
    by blast
qed

section \<open>Facts about the grouping of scale factors\<close>

lemma expand_runs_Nil: "expand_runs [] = []"
  by (simp add: expand_runs_def)

lemma expand_runs_Cons: "expand_runs ((sf, num) # runs) = replicate num sf @ expand_runs runs"
  by (simp add: expand_runs_def)

lemma length_expand_runs: "length (expand_runs runs) = sum_list (map snd runs)"
  by (induction runs) (auto simp: expand_runs_def)

lemma fix_entry_length: "fix_entry N e = Inr sf \<Longrightarrow> length sf = nat N"
  by (cases e) (auto simp: fix_entry_def Let_def split: if_splits)


lemma no_difference_eq:
  "length l = length sf \<Longrightarrow> \<not> list_ex (\<lambda>(l, t). l \<noteq> t) (zip l sf) \<Longrightarrow> l = sf"
  by (induction l sf rule: list_induct2) auto

lemma difference_neq: "list_ex (\<lambda>(l, t). l \<noteq> t) (zip l sf) \<Longrightarrow> l \<noteq> sf"
  by (induction l arbitrary: sf) (auto simp: list_ex_iff zip_same)


text \<open>
  What the loop yields: the runs, expanded, are the samples' factor lists in order
  (after those still counted in \<open>num\<close>), their lengths add up to the number of entries,
  and neighbouring runs differ.
\<close>

lemma fix_loop_runs:
  assumes "fix_loop N num last_sf es = Inr runs" and "loop_inv N num last_sf"
  shows "\<exists>vs. map (fix_entry N) es = map Inr vs
           \<and> expand_runs runs = (case last_sf of None \<Rightarrow> [] | Some l \<Rightarrow> replicate num l) @ vs
           \<and> sum_list (map snd runs) = num + length es
           \<and> distinct_adj (map fst runs)
           \<and> (\<forall>l. last_sf = Some l \<longrightarrow> runs \<noteq> [] \<and> fst (hd runs) = l)"
  using assms
proof (induction es arbitrary: num last_sf runs)
  case Nil
  then show ?case
    by (cases last_sf) (auto simp: expand_runs_def loop_inv_def)
next
  case (Cons e es)
  from Cons.prems(1) obtain v where v: "fix_entry N e = Inr v"
    by (cases "fix_entry N e") auto
  have lv: "length v = nat N"
    using v by (rule fix_entry_length)
  show ?case
  proof (cases last_sf)
    case None
    with Cons.prems have num: "num = 0" by (simp add: loop_inv_def)
    from Cons.prems(1) v None have r: "fix_loop N (num + 1) (Some v) es = Inr runs" by simp
    have "loop_inv N (num + 1) (Some v)" using lv by (simp add: loop_inv_def)
    from Cons.IH [OF r this] obtain vs where
      "map (fix_entry N) es = map Inr vs"
      "expand_runs runs = replicate (num + 1) v @ vs"
      "sum_list (map snd runs) = num + 1 + length es"
      "distinct_adj (map fst runs)" by auto
    with v None num show ?thesis
      by (intro exI [of _ "v # vs"]) simp
  next
    case (Some l)
    with Cons.prems have ll: "length l = nat N" by (simp add: loop_inv_def)
    show ?thesis
    proof (cases "list_ex (\<lambda>(l, t). l \<noteq> t) (zip l v)")
      case True
      with Cons.prems(1) v Some obtain ys where
        ys: "fix_loop N 1 (Some v) es = Inr ys" and runs: "runs = (l, num) # ys"
        by (cases "fix_loop N 1 (Some v) es") auto
      have "loop_inv N 1 (Some v)" using lv by (simp add: loop_inv_def)
      from Cons.IH [OF ys this] obtain vs where
        "map (fix_entry N) es = map Inr vs"
        "expand_runs ys = replicate 1 v @ vs"
        "sum_list (map snd ys) = 1 + length es"
        "distinct_adj (map fst ys)" "ys \<noteq> []" "fst (hd ys) = v" by auto
      moreover have "l \<noteq> v" using True by (rule difference_neq)
      ultimately show ?thesis
        using v Some runs
        by (intro exI [of _ "v # vs"]) (cases ys; simp add: expand_runs_Cons)
    next
      case False
      with ll lv have lv_eq: "l = v" by (intro no_difference_eq) simp_all
      from Cons.prems(1) v Some False have r: "fix_loop N (num + 1) (Some v) es = Inr runs" by simp
      have "loop_inv N (num + 1) (Some v)" using lv by (simp add: loop_inv_def)
      from Cons.IH [OF r this] obtain vs where
        "map (fix_entry N) es = map Inr vs"
        "expand_runs runs = replicate (num + 1) v @ vs"
        "sum_list (map snd runs) = num + 1 + length es"
        "distinct_adj (map fst runs)" "runs \<noteq> []" "fst (hd runs) = v" by auto
      with v Some lv_eq show ?thesis
        by (intro exI [of _ "v # vs"]) (simp add: replicate_app_Cons_same)
    qed
  qed
qed

lemma split_sizes_concat:
  "sum_list ns = length xs \<Longrightarrow> concat (split_sizes xs ns) = xs"
proof (induction ns arbitrary: xs)
  case Nil
  then show ?case by simp
next
  case (Cons n ns)
  then have "sum_list ns = length (drop n xs)" by simp
  then have "concat (split_sizes (drop n xs) ns) = drop n xs" by (rule Cons.IH)
  then show ?case by simp
qed

lemma split_sizes_lengths:
  "sum_list ns = length xs \<Longrightarrow> map length (split_sizes xs ns) = ns"
proof (induction ns arbitrary: xs)
  case Nil
  then show ?case by simp
next
  case (Cons n ns)
  then have "sum_list ns = length (drop n xs)" by simp
  then have "map length (split_sizes (drop n xs) ns) = ns" by (rule Cons.IH)
  with Cons.prems show ?case by simp
qed

lemma length_split_sizes: "length (split_sizes xs ns) = length ns"
  by (induction ns arbitrary: xs) simp_all

section \<open>Flat sequences of scale factors\<close>



section \<open>The forward pass\<close>

text \<open>
  Whatever the scale factors, a forward pass that returns gives one list of scale
  factors per sample: \<^verbatim>\<open>torch.split\<close> has refused every other case.
\<close>

lemma forward_loop_lengths:
  "forward_loop interpolate rescale target_shape jobs = Inr (interp, scales_out)
     \<Longrightarrow> length scales_out = sum_list (map (\<lambda>(tensor, sf, k). k) jobs)
       \<and> length interp = length jobs"
proof (induction jobs arbitrary: interp scales_out)
  case Nil
  then show ?case by simp
next
  case (Cons job jobs)
  obtain tensor sf k where job: "job = (tensor, sf, k)" by (cases job)
  from Cons.prems obtain image' sf' interp' scales' where
    rest: "forward_loop interpolate rescale target_shape jobs = Inr (interp', scales')"
    and out: "interp = image' # interp'" "scales_out = replicate k sf' @ scales'"
    unfolding job by (auto split: sum.splits prod.splits if_splits)
  from Cons.IH [OF rest] out show ?case
    by (simp add: job)
qed

lemma forward_scales_out_length:
  assumes "forward N interpolate input_tensor sfs target_shape rescale = Inr (out, scales_out)"
  shows "length scales_out = length (samples input_tensor)"
proof -
  from assms obtain runs where
    runs: "fix_scale_factors N sfs (length (samples input_tensor)) = Inr runs"
    by (cases "fix_scale_factors N sfs (length (samples input_tensor))")
       (auto simp: forward_def split: if_splits)
  from assms runs have total: "sum_list (map snd runs) = length (samples input_tensor)"
    by (auto simp: forward_def Let_def torch_split_def split: if_splits)
  let ?jobs = "zip (split_sizes (samples input_tensor) (map snd runs))
                   (zip (map fst runs) (map snd runs))"
  from assms runs total obtain interp where
    "forward_loop interpolate rescale target_shape ?jobs = Inr (interp, scales_out)"
    by (auto simp: forward_def Let_def torch_split_def split: if_splits sum.splits prod.splits)
  from forward_loop_lengths [OF this]
  have "length scales_out = sum_list (map (\<lambda>(tensor, sf, k). k) ?jobs)" by simp
  also have "map (\<lambda>(tensor, sf, k). k) ?jobs = map snd (map snd ?jobs)"
    by (simp add: case_prod_unfold comp_def)
  also have "map snd ?jobs = zip (map fst runs) (map snd runs)"
    by (simp add: length_split_sizes)
  also have "map snd (zip (map fst runs) (map snd runs)) = map snd runs"
    by simp
  finally show ?thesis
    using total by simp
qed

lemma rescale_list_nonzero: "0 \<notin> set v \<Longrightarrow> rescale_list v = Inr (recip_list v)"
  by (auto simp: rescale_list_def list_ex_iff)

lemma fix_entry_recip:
  "fix_entry N (recip_entry e) = map_sum id recip_list (fix_entry N e)"
  by (cases e) (simp_all add: fix_entry_def Let_def map_concat)

lemma fix_entry_nonzero:
  "fix_entry N e = Inr v \<Longrightarrow> nonzero_entry e \<Longrightarrow> 0 \<notin> set v"
  by (cases e) (auto simp: fix_entry_def Let_def list_all_iff split: if_splits)

lemma difference_recip:
  "list_ex (\<lambda>(l, t). l \<noteq> t) (zip (recip_list l) (recip_list sf))
     = list_ex (\<lambda>(l, t). l \<noteq> t) (zip l sf)"
proof (induction l arbitrary: sf)
  case Nil
  then show ?case by simp
next
  case (Cons a l)
  show ?case
  proof (cases sf)
    case Nil
    then show ?thesis by simp
  next
    case (Cons b sf')
    have "(1 / a = 1 / b) = (a = b)"
      using inverse_eq_iff_eq [of a b] by (simp add: inverse_eq_divide)
    with Cons Cons.IH [of sf'] show ?thesis by simp
  qed
qed

lemma fix_loop_recip:
  "fix_loop N num (map_option recip_list last_sf) (map recip_entry es)
     = map_sum id (map (\<lambda>(sf, k). (recip_list sf, k))) (fix_loop N num last_sf es)"
proof (induction es arbitrary: num last_sf)
  case Nil
  then show ?case by (cases last_sf) simp_all
next
  case (Cons e es)
  show ?case
  proof (cases "fix_entry N e")
    case (Inl err)
    then show ?thesis by (simp add: fix_entry_recip)
  next
    case (Inr v)
    note IH = Cons.IH [of _ "Some v", simplified]
    show ?thesis
    proof (cases last_sf)
      case None
      with Inr IH show ?thesis by (simp add: fix_entry_recip)
    next
      case (Some l)
      with Inr IH show ?thesis
        by (cases "fix_loop N 1 (Some v) es") (simp_all add: fix_entry_recip difference_recip)
    qed
  qed
qed

lemma fix_loop_nonzero:
  assumes "fix_loop N num last_sf es = Inr runs"
    and "list_all nonzero_entry es"
    and "\<And>l. last_sf = Some l \<Longrightarrow> 0 \<notin> set l"
  shows "\<forall>(sf, k) \<in> set runs. 0 \<notin> set sf"
  using assms
proof (induction es arbitrary: num last_sf runs)
  case Nil
  then show ?case by (cases last_sf) auto
next
  case (Cons e es)
  from Cons.prems(1) obtain v where v: "fix_entry N e = Inr v"
    by (cases "fix_entry N e") auto
  have "nonzero_entry e"
    using Cons.prems(2) by simp
  with v have nz: "0 \<notin> set v"
    by (rule fix_entry_nonzero)
  have rest: "list_all nonzero_entry es"
    using Cons.prems(2) by simp
  show ?case
  proof (cases last_sf)
    case None
    with Cons.prems(1) v have "fix_loop N (num + 1) (Some v) es = Inr runs" by simp
    from Cons.IH [OF this rest] nz show ?thesis by simp
  next
    case (Some l)
    with Cons.prems(3) have nl: "0 \<notin> set l" by simp
    show ?thesis
    proof (cases "list_ex (\<lambda>(l, t). l \<noteq> t) (zip l v)")
      case True
      with Cons.prems(1) v Some obtain ys where
        ys: "fix_loop N 1 (Some v) es = Inr ys" and runs: "runs = (l, num) # ys"
        by (cases "fix_loop N 1 (Some v) es") auto
      from Cons.IH [OF ys rest] nz have "\<forall>(sf, k) \<in> set ys. 0 \<notin> set sf" by simp
      with runs nl show ?thesis by simp
    next
      case False
      with Cons.prems(1) v Some have "fix_loop N (num + 1) (Some v) es = Inr runs" by simp
      from Cons.IH [OF this rest] nz show ?thesis by simp
    qed
  qed
qed

lemma fix_scale_factors_recip:
  "fix_scale_factors N (recip_scale_factors sfs) batch_size
     = map_sum id (map (\<lambda>(sf, k). (recip_list sf, k))) (fix_scale_factors N sfs batch_size)"
proof (cases sfs)
  case (Scalar x)
  then show ?thesis by (simp add: fix_scale_factors_def)
next
  case (Iterable es)
  then show ?thesis
    using fix_loop_recip [of N 0 None es] by (simp add: fix_scale_factors_def)
next
  case Unsupported
  then show ?thesis by (simp add: fix_scale_factors_def)
qed

lemma fix_scale_factors_nonzero:
  assumes "fix_scale_factors N sfs batch_size = Inr runs" and "nonzero_scale_factors sfs"
  shows "\<forall>(sf, k) \<in> set runs. 0 \<notin> set sf"
proof (cases sfs)
  case (Scalar x)
  with assms show ?thesis by (auto simp: fix_scale_factors_def)
next
  case (Iterable es)
  with assms have "fix_loop N 0 None es = Inr runs" "list_all nonzero_entry es"
    by (simp_all add: fix_scale_factors_def)
  then show ?thesis by (rule fix_loop_nonzero) simp
next
  case Unsupported
  with assms show ?thesis by (simp add: fix_scale_factors_def)
qed

lemma forward_loop_rescale:
  assumes "\<forall>(tensor, sf, k) \<in> set jobs. 0 \<notin> set sf"
  shows "forward_loop interpolate True target_shape jobs
       = forward_loop interpolate False target_shape
           (map (\<lambda>(tensor, sf, k). (tensor, recip_list sf, k)) jobs)"
  using assms
proof (induction jobs)
  case Nil
  then show ?case by simp
next
  case (Cons job jobs)
  obtain tensor sf k where job: "job = (tensor, sf, k)" by (cases job)
  with Cons.prems have "0 \<notin> set sf" by simp
  then have "rescale_list sf = Inr (recip_list sf)" by (rule rescale_list_nonzero)
  moreover have "forward_loop interpolate True target_shape jobs
       = forward_loop interpolate False target_shape
           (map (\<lambda>(tensor, sf, k). (tensor, recip_list sf, k)) jobs)"
    using Cons by simp
  ultimately show ?case
    by (simp add: job split: sum.split prod.split)
qed

lemma zip_runs_recip:
  "zip tensors (zip (map fst (map (\<lambda>(sf, k). (recip_list sf, k)) runs))
                    (map snd (map (\<lambda>(sf, k). (recip_list sf, k)) runs)))
     = map (\<lambda>(tensor, sf, k). (tensor, recip_list sf, k))
         (zip tensors (zip (map fst runs) (map snd runs)))"
proof (induction runs arbitrary: tensors)
  case Nil
  then show ?case by simp
next
  case (Cons r runs)
  then show ?case by (cases tensors; cases r) simp_all
qed

text \<open>
  Claim C8: for every input tensor, target shape and scale factors without a zero, and
  for every implementation of \<^verbatim>\<open>_interpolate\<close>, \<^verbatim>\<open>forward\<close> with \<^verbatim>\<open>rescale=True\<close>
  returns exactly what \<^verbatim>\<open>forward\<close> with \<^verbatim>\<open>rescale=False\<close> returns on the reciprocal
  scale factors: the same tensor and the same corrected scale factors, or the same
  exception. Scale factors are real numbers here, so \<open>1 / x\<close> is exact.
\<close>

theorem rescale_is_reciprocal_input:
  assumes "nonzero_scale_factors sfs"
  shows "forward N interpolate input_tensor sfs target_shape True
       = forward N interpolate input_tensor (recip_scale_factors sfs) target_shape False"
proof (cases "fix_scale_factors N sfs (length (samples input_tensor))")
  case (Inl err)
  then show ?thesis
    by (simp add: forward_def fix_scale_factors_recip)
next
  case (Inr runs)
  let ?runs' = "map (\<lambda>(sf, k). (recip_list sf, k)) runs"
  have r': "fix_scale_factors N (recip_scale_factors sfs) (length (samples input_tensor)) = Inr ?runs'"
    by (simp add: fix_scale_factors_recip Inr)
  have chunks: "map snd ?runs' = map snd runs"
    by (induction runs) auto
  have nz: "\<forall>(sf, k) \<in> set runs. 0 \<notin> set sf"
    using Inr assms by (rule fix_scale_factors_nonzero)
  have loop: "forward_loop interpolate True target_shape
                (zip tensors (zip (map fst runs) (map snd runs)))
            = forward_loop interpolate False target_shape
                (zip tensors (zip (map fst ?runs') (map snd ?runs')))" for tensors
  proof -
    have "\<forall>(tensor, sf, k) \<in> set (zip tensors (zip (map fst runs) (map snd runs))). 0 \<notin> set sf"
      using nz by (auto simp: zip_map_fst_snd dest!: set_zip_rightD)
    from forward_loop_rescale [OF this] show ?thesis
      by (simp only: zip_runs_recip)
  qed
  show ?thesis
    unfolding forward_def Inr r' Let_def
    by (simp add: loop chunks del: map_map split: sum.split prod.split)
qed

theorem rescale_is_reciprocal_input_witness:
  "nonzero_scale_factors (Iterable [Number 2, Number 4])
   \<and> forward 2 (\<lambda>chunk sf target. Inr (chunk, sf)) \<lparr>ndim = 4, samples = [10, 20 :: nat]\<rparr>
        (Iterable [Number 2, Number 4]) [3, 3] True
      = Inr ([10, 20], [[1 / 2, 1 / 2], [1 / 4, 1 / 4]])
   \<and> forward 2 (\<lambda>chunk sf target. Inr (chunk, sf)) \<lparr>ndim = 4, samples = [10, 20 :: nat]\<rparr>
        (recip_scale_factors (Iterable [Number 2, Number 4])) [3, 3] False
      = Inr ([10, 20], [[1 / 2, 1 / 2], [1 / 4, 1 / 4]])"
proof -
  have nz: "nonzero_scale_factors (Iterable [Number 2, Number 4])"
    by simp
  have a: "forward 2 (\<lambda>chunk sf target. Inr (chunk, sf)) \<lparr>ndim = 4, samples = [10, 20 :: nat]\<rparr>
        (Iterable [Number 2, Number 4]) [3, 3] True
      = Inr ([10, 20], [[1 / 2, 1 / 2], [1 / 4, 1 / 4]])"
    by (simp add: forward_def fix_scale_factors_def fix_entry_def torch_split_def
        rescale_list_def numeral_2_eq_2)
  have b: "forward 2 (\<lambda>chunk sf target. Inr (chunk, sf)) \<lparr>ndim = 4, samples = [10, 20 :: nat]\<rparr>
        (recip_scale_factors (Iterable [Number 2, Number 4])) [3, 3] False
      = Inr ([10, 20], [[1 / 2, 1 / 2], [1 / 4, 1 / 4]])"
    using rescale_is_reciprocal_input [OF nz, of 2 "\<lambda>chunk sf target. Inr (chunk, sf)"
        "\<lparr>ndim = 4, samples = [10, 20 :: nat]\<rparr>" "[3, 3]"] a
    by (simp only:)
  from nz a b show ?thesis
    by blast
qed

section \<open>The partition of the batch\<close>

text \<open>
  With a single number, or with as many entries as samples, the runs partition the
  batch.
\<close>

lemma fix_scale_factors_partition:
  assumes runs: "fix_scale_factors N sfs (length batch) = Inr runs"
    and len: "per_sample_length_ok sfs (length batch)"
  shows "sum_list (map snd runs) = length batch
       \<and> (\<exists>chunks. torch_split batch (map snd runs) = Inr chunks
                    \<and> map length chunks = map snd runs
                    \<and> concat chunks = batch)
       \<and> length (expand_runs runs) = length batch
       \<and> (case sfs of
             Iterable es \<Rightarrow> map (fix_entry N) es = map Inr (expand_runs runs)
           | Scalar x \<Rightarrow> expand_runs runs = replicate (length batch) (replicate (nat N) x)
           | Unsupported \<Rightarrow> False)"
proof -
  let ?samples = "case sfs of
             Iterable es \<Rightarrow> map (fix_entry N) es = map Inr (expand_runs runs)
           | Scalar x \<Rightarrow> expand_runs runs = replicate (length batch) (replicate (nat N) x)
           | Unsupported \<Rightarrow> False"
  have both: "sum_list (map snd runs) = length batch \<and> ?samples"
  proof (cases sfs)
    case (Scalar x)
    with runs have "runs = [(replicate (nat N) x, length batch)]"
      by (auto simp: fix_scale_factors_def)
    then show ?thesis
      using Scalar by (simp add: expand_runs_def)
  next
    case (Iterable es)
    with runs have r: "fix_loop N 0 None es = Inr runs"
      by (simp add: fix_scale_factors_def)
    have "loop_inv N 0 None"
      by (simp add: loop_inv_def)
    from fix_loop_runs [OF r this] obtain vs where
      "map (fix_entry N) es = map Inr vs" "expand_runs runs = vs"
      "sum_list (map snd runs) = length es"
      by auto
    then show ?thesis
      using len Iterable by (simp add: per_sample_length_ok_def)
  next
    case Unsupported
    with runs show ?thesis
      by (simp add: fix_scale_factors_def)
  qed
  then have total: "sum_list (map snd runs) = length batch" and samples: ?samples
    by simp_all
  have "torch_split batch (map snd runs) = Inr (split_sizes batch (map snd runs))"
    using total by (simp add: torch_split_def)
  moreover note split_sizes_lengths [OF total] split_sizes_concat [OF total]
  ultimately show ?thesis
    using total samples by (simp add: length_expand_runs)
qed

text \<open>
  With an \<^verbatim>\<open>_interpolate\<close> that treats every sample of a chunk alike, the forward pass
  returns the samples in the order of the batch, each zoomed under its own scale
  factors.
\<close>

lemma forward_loop_per_sample:
  assumes "forward_loop (per_sample_interpolate plan zoom) rescale target_shape jobs
             = Inr (interp, scales_out)"
    and "\<forall>(chunk, sf, k) \<in> set jobs. length chunk = k"
  shows "list_all2 (zoomed_as plan zoom rescale target_shape)
           (zip (concat (map fst jobs)) (expand_runs (map snd jobs)))
           (zip (concat interp) scales_out)
         \<and> length (concat interp) = length (concat (map fst jobs))"
  using assms
proof (induction jobs arbitrary: interp scales_out)
  case Nil
  then show ?case by (simp add: expand_runs_Nil)
next
  case (Cons job jobs)
  obtain chunk sf k where job: "job = (chunk, sf, k)" by (cases job)
  from Cons.prems(2) have k: "length chunk = k" and rest_len: "\<forall>(chunk, sf, k) \<in> set jobs. length chunk = k"
    by (simp_all add: job)
  let ?sf = "if rescale then recip_list sf else sf"
  from Cons.prems(1) have sf_ok: "(if rescale then rescale_list sf else Inr sf) = Inr ?sf"
    unfolding job by (auto simp: rescale_list_def split: if_splits sum.splits)
  from Cons.prems(1) sf_ok obtain image' sf' interp' scales' where
    image: "per_sample_interpolate plan zoom chunk ?sf target_shape = Inr (image', sf')"
    and rest: "forward_loop (per_sample_interpolate plan zoom) rescale target_shape jobs
                 = Inr (interp', scales')"
    and out': "interp = image' # interp'" "scales_out = replicate k sf' @ scales'"
    unfolding job
    by (auto split: sum.splits prod.splits)
  from image obtain p where
    plan: "plan ?sf target_shape = Inr (p, sf')" and image': "image' = map (zoom p) chunk"
    by (auto simp: per_sample_interpolate_def split: sum.splits prod.splits)
  note out = out'(1) [unfolded image'] out'(2)
  from Cons.IH [OF rest rest_len] have
    tail: "list_all2 (zoomed_as plan zoom rescale target_shape)
           (zip (concat (map fst jobs)) (expand_runs (map snd jobs)))
           (zip (concat interp') scales')"
    and tail_len: "length (concat interp') = length (concat (map fst jobs))"
    by simp_all
  have head: "list_all2 (zoomed_as plan zoom rescale target_shape)
           (zip chunk (replicate k sf)) (zip (map (zoom p) chunk) (replicate k sf'))"
    using k plan by (auto simp: list_all2_conv_all_nth zoomed_as_def)
  have "list_all2 (zoomed_as plan zoom rescale target_shape)
           (zip chunk (replicate k sf) @ zip (concat (map fst jobs)) (expand_runs (map snd jobs)))
           (zip (map (zoom p) chunk) (replicate k sf') @ zip (concat interp') scales')"
    using head tail by (rule list_all2_appendI)
  then show ?case
    using k tail_len by (simp add: job out expand_runs_Cons)
qed

lemma zip_chunk_lengths:
  assumes "map length tensors = map snd runs"
  shows "\<forall>(chunk, sf, k) \<in> set (zip tensors (zip (map fst runs) (map snd runs))). length chunk = k"
  using assms
proof (induction tensors arbitrary: runs)
  case Nil
  then show ?case by simp
next
  case (Cons c tensors)
  then show ?case by (cases runs) auto
qed

lemma forward_per_sample:
  assumes fwd: "forward N (per_sample_interpolate plan zoom) input_tensor sfs target_shape rescale
                  = Inr (out, scales_out)"
  shows "\<exists>runs chunks.
           fix_scale_factors N sfs (length (samples input_tensor)) = Inr runs
         \<and> sum_list (map snd runs) = length (samples input_tensor)
         \<and> torch_split (samples input_tensor) (map snd runs) = Inr chunks
         \<and> map length chunks = map snd runs
         \<and> concat chunks = samples input_tensor
         \<and> length out = length (samples input_tensor)
         \<and> length scales_out = length (samples input_tensor)
         \<and> list_all2 (zoomed_as plan zoom rescale target_shape)
              (zip (samples input_tensor) (expand_runs runs)) (zip out scales_out)"
proof -
  let ?batch = "samples input_tensor"
  from fwd obtain runs where
    runs: "fix_scale_factors N sfs (length ?batch) = Inr runs"
    by (cases "fix_scale_factors N sfs (length ?batch)")
       (auto simp: forward_def split: if_splits)
  from fwd runs have total: "sum_list (map snd runs) = length ?batch"
    by (auto simp: forward_def Let_def torch_split_def split: if_splits)
  let ?chunks = "split_sizes ?batch (map snd runs)"
  let ?jobs = "zip ?chunks (zip (map fst runs) (map snd runs))"
  have split: "torch_split ?batch (map snd runs) = Inr ?chunks"
    using total by (simp add: torch_split_def)
  from fwd runs split obtain interp where
    loop: "forward_loop (per_sample_interpolate plan zoom) rescale target_shape ?jobs
             = Inr (interp, scales_out)"
    and out: "out = concat interp"
    by (auto simp: forward_def Let_def split: if_splits sum.splits prod.splits)
  note lens = split_sizes_lengths [OF total]
  note cat = split_sizes_concat [OF total]
  have fst_jobs: "map fst ?jobs = ?chunks"
    by (simp add: length_split_sizes)
  have snd_jobs: "map snd ?jobs = runs"
    by (simp add: length_split_sizes zip_map_fst_snd)
  from forward_loop_per_sample [OF loop zip_chunk_lengths [OF lens]]
  have "list_all2 (zoomed_as plan zoom rescale target_shape)
           (zip ?batch (expand_runs runs)) (zip out scales_out)"
    and "length out = length ?batch"
    unfolding fst_jobs snd_jobs cat out by simp_all
  moreover note forward_scales_out_length [OF fwd] runs total split lens cat
  ultimately show ?thesis
    by blast
qed

text \<open>
  Claim C7 as the specification states it: for every accepted input the run lengths
  would add up to the batch size. The sequence \<open>[1]\<close> is accepted for a batch of two
  samples and gives one run of length 1.
\<close>

theorem short_sequence_runs_not_batch_size:
  "fix_scale_factors 2 (Iterable [Number 1]) 2 = Inr [([1, 1], 1)]
   \<and> sum_list (map snd [([1, 1 :: real], 1 :: nat)]) \<noteq> 2"
  by (simp add: fix_scale_factors_def fix_entry_def numeral_2_eq_2)

text \<open>
  Claim C7, amended. For the normalizer: for a single number, or a sequence with as
  many entries as the batch has samples, every accepted input gives runs whose lengths
  add up to the batch size; \<^verbatim>\<open>torch.split\<close> at these lengths succeeds, its chunks have
  the run lengths and concatenated in run order they are the batch again; the runs,
  expanded to their lengths, give sample by sample the list of factors that the
  sample's own entry stands for. For the forward pass: whenever \<^verbatim>\<open>forward\<close> returns,
  with an \<^verbatim>\<open>_interpolate\<close> that zooms every sample of a chunk alike, the run lengths add
  up to the batch size, the chunks concatenated are the batch, and the output chunks
  concatenated in run order have the size and the order of the batch: output sample
  \<open>i\<close> is input sample \<open>i\<close> zoomed under the scale factors of its own entry, and entry
  \<open>i\<close> of the returned scale factors is its corrected scale vector.
\<close>

theorem runs_partition_batch:
  "(fix_scale_factors N sfs (length batch) = Inr runs \<and> per_sample_length_ok sfs (length batch)
      \<longrightarrow> sum_list (map snd runs) = length batch
        \<and> (\<exists>chunks. torch_split batch (map snd runs) = Inr chunks
                    \<and> map length chunks = map snd runs
                    \<and> concat chunks = batch)
        \<and> length (expand_runs runs) = length batch
        \<and> (case sfs of
              Iterable es \<Rightarrow> map (fix_entry N) es = map Inr (expand_runs runs)
            | Scalar x \<Rightarrow> expand_runs runs = replicate (length batch) (replicate (nat N) x)
            | Unsupported \<Rightarrow> False))
   \<and> (forward N (per_sample_interpolate plan zoom) input_tensor sfs' target_shape rescale
          = Inr (out, scales_out)
      \<longrightarrow> (\<exists>runs' chunks.
             fix_scale_factors N sfs' (length (samples input_tensor)) = Inr runs'
           \<and> sum_list (map snd runs') = length (samples input_tensor)
           \<and> torch_split (samples input_tensor) (map snd runs') = Inr chunks
           \<and> map length chunks = map snd runs'
           \<and> concat chunks = samples input_tensor
           \<and> length out = length (samples input_tensor)
           \<and> length scales_out = length (samples input_tensor)
           \<and> list_all2 (zoomed_as plan zoom rescale target_shape)
                (zip (samples input_tensor) (expand_runs runs')) (zip out scales_out)))"
proof (rule conjI; rule impI)
  assume "fix_scale_factors N sfs (length batch) = Inr runs \<and> per_sample_length_ok sfs (length batch)"
  then show "sum_list (map snd runs) = length batch
        \<and> (\<exists>chunks. torch_split batch (map snd runs) = Inr chunks
                    \<and> map length chunks = map snd runs
                    \<and> concat chunks = batch)
        \<and> length (expand_runs runs) = length batch
        \<and> (case sfs of
              Iterable es \<Rightarrow> map (fix_entry N) es = map Inr (expand_runs runs)
            | Scalar x \<Rightarrow> expand_runs runs = replicate (length batch) (replicate (nat N) x)
            | Unsupported \<Rightarrow> False)"
    using fix_scale_factors_partition [of N sfs batch runs] by blast
next
  assume "forward N (per_sample_interpolate plan zoom) input_tensor sfs' target_shape rescale
          = Inr (out, scales_out)"
  then show "\<exists>runs' chunks.
             fix_scale_factors N sfs' (length (samples input_tensor)) = Inr runs'
           \<and> sum_list (map snd runs') = length (samples input_tensor)
           \<and> torch_split (samples input_tensor) (map snd runs') = Inr chunks
           \<and> map length chunks = map snd runs'
           \<and> concat chunks = samples input_tensor
           \<and> length out = length (samples input_tensor)
           \<and> length scales_out = length (samples input_tensor)
           \<and> list_all2 (zoomed_as plan zoom rescale target_shape)
                (zip (samples input_tensor) (expand_runs runs')) (zip out scales_out)"
    by (rule forward_per_sample)
qed

theorem runs_partition_batch_witness:
  "fix_scale_factors 2 (Iterable [Number 1, Number 1, Number 2]) (length [10, 20, 30 :: nat])
     = Inr [([1, 1], 2), ([2, 2], 1)]
   \<and> per_sample_length_ok (Iterable [Number 1, Number 1, Number 2]) (length [10, 20, 30 :: nat])
   \<and> sum_list (map snd [([1, 1 :: real], 2 :: nat), ([2, 2], 1)]) = length [10, 20, 30 :: nat]
   \<and> (\<exists>chunks. torch_split [10, 20, 30 :: nat] (map snd [([1, 1 :: real], 2 :: nat), ([2, 2], 1)])
                    = Inr chunks
                \<and> map length chunks = map snd [([1, 1 :: real], 2 :: nat), ([2, 2], 1)]
                \<and> concat chunks = [10, 20, 30])
   \<and> forward 2 (per_sample_interpolate (\<lambda>sf target. Inr (sf, sf)) (\<lambda>p x. (x, p)))
        \<lparr>ndim = 4, samples = [10, 20, 30 :: nat]\<rparr> (Iterable [Number 1, Number 1, Number 2])
        [3, 3] False
      = Inr ([(10, [1, 1]), (20, [1, 1]), (30, [2, 2])], [[1, 1], [1, 1], [2, 2]])
   \<and> (\<exists>runs'.
         fix_scale_factors 2 (Iterable [Number 1, Number 1, Number 2]) (length [10, 20, 30 :: nat])
           = Inr runs'
       \<and> list_all2 (zoomed_as (\<lambda>sf target. Inr (sf, sf)) (\<lambda>p x. (x, p)) False [3, 3])
            (zip [10, 20, 30 :: nat] (expand_runs runs'))
            (zip [(10, [1, 1]), (20, [1, 1]), (30, [2, 2])] [[1, 1], [1, 1], [2, 2]]))"
proof -
  have a: "fix_scale_factors 2 (Iterable [Number 1, Number 1, Number 2]) (length [10, 20, 30 :: nat])
     = Inr [([1, 1], 2), ([2, 2], 1)]"
    by (simp add: fix_scale_factors_def fix_entry_def numeral_2_eq_2)
  have b: "per_sample_length_ok (Iterable [Number 1, Number 1, Number 2]) (length [10, 20, 30 :: nat])"
    by (simp add: per_sample_length_ok_def)
  have f: "forward 2 (per_sample_interpolate (\<lambda>sf target. Inr (sf, sf)) (\<lambda>p x. (x, p)))
        \<lparr>ndim = 4, samples = [10, 20, 30 :: nat]\<rparr> (Iterable [Number 1, Number 1, Number 2])
        [3, 3] False
      = Inr ([(10, [1, 1]), (20, [1, 1]), (30, [2, 2])], [[1, 1], [1, 1], [2, 2]])"
    by (simp add: forward_def fix_scale_factors_def fix_entry_def torch_split_def
        per_sample_interpolate_def numeral_2_eq_2)
  note inst = runs_partition_batch [of 2 "Iterable [Number 1, Number 1, Number 2]" "[10, 20, 30 :: nat]"
      "[([1, 1], 2), ([2, 2], 1)]" "\<lambda>sf target. Inr (sf, sf)" "\<lambda>p x. (x, p)"
      "\<lparr>ndim = 4, samples = [10, 20, 30 :: nat]\<rparr>" "Iterable [Number 1, Number 1, Number 2]"
      "[3, 3]" False "[(10, [1, 1]), (20, [1, 1]), (30, [2, 2])]" "[[1, 1], [1, 1], [2, 2]]"]
  from inst [THEN conjunct1, THEN mp, OF conjI [OF a b]]
  have A: "sum_list (map snd [([1, 1 :: real], 2 :: nat), ([2, 2], 1)]) = length [10, 20, 30 :: nat]"
    and A': "\<exists>chunks. torch_split [10, 20, 30 :: nat] (map snd [([1, 1 :: real], 2 :: nat), ([2, 2], 1)])
                    = Inr chunks
                \<and> map length chunks = map snd [([1, 1 :: real], 2 :: nat), ([2, 2], 1)]
                \<and> concat chunks = [10, 20, 30]"
    by blast+
  from inst [THEN conjunct2, THEN mp, OF f]
  have B: "\<exists>runs'.
         fix_scale_factors 2 (Iterable [Number 1, Number 1, Number 2]) (length [10, 20, 30 :: nat])
           = Inr runs'
       \<and> list_all2 (zoomed_as (\<lambda>sf target. Inr (sf, sf)) (\<lambda>p x. (x, p)) False [3, 3])
            (zip [10, 20, 30 :: nat] (expand_runs runs'))
            (zip [(10, [1, 1]), (20, [1, 1]), (30, [2, 2])] [[1, 1], [1, 1], [2, 2]])"
    unfolding tensor.simps length_Cons list.size by blast
  from a b A A' f B show ?thesis
    by blast
qed

end
